theory Spec2Isabelle
  imports Complex_Main "HOL-Library.Word"
begin

section \<open>JavaScript values used by \<^verbatim>\<open>static/js/main.js\<close>\<close>

text \<open>
  A JavaScript string is a sequence of UTF-16 code units. String literals of the
  source are ASCII and are written with \<open>str\<close>.
\<close>

type_synonym code_unit = "16 word"
type_synonym js_string = "code_unit list"

definition str :: "string \<Rightarrow> js_string" where
  "str cs = map of_char cs"

section \<open>Formatters\<close>

text \<open>
  Numbers are modelled as mathematical integers: byte counts as \<open>nat\<close>, second counts
  as \<open>int\<close>. \<open>Number.prototype.toString\<close> on an integer gives its decimal digits, with a
  leading minus sign for a negative one.
\<close>

fun nat_to_string :: "nat \<Rightarrow> js_string" where
  "nat_to_string n =
     (if n < 10 then [48 + of_nat n]
      else nat_to_string (n div 10) @ [48 + of_nat (n mod 10)])"

definition int_to_string :: "int \<Rightarrow> js_string" where
  "int_to_string z =
     (if z < 0 then str ''-'' @ nat_to_string (nat (- z)) else nat_to_string (nat z))"

text \<open>
  \<open>Math.floor(Math.log(bytes) / Math.log(k))\<close> for \<open>bytes \<ge> 1\<close>: the logarithms are taken
  exactly, so the result is the largest \<open>i\<close> with \<open>k ^ i \<le> bytes\<close>.
\<close>

fun floor_log :: "nat \<Rightarrow> nat \<Rightarrow> nat" where
  "floor_log k n = (if k < 2 \<or> n < k then 0 else Suc (floor_log k (n div k)))"

text \<open>
  \<open>(num / den).toFixed(1)\<close>: the integer \<open>n\<close> with \<open>n / 10\<close> nearest to the quotient, the
  larger one on a tie, printed with one digit after the point.
\<close>

definition toFixed1 :: "nat \<Rightarrow> nat \<Rightarrow> js_string" where
  "toFixed1 num den =
     (let n = (20 * num + den) div (2 * den)
      in nat_to_string (n div 10) @ str ''.'' @ nat_to_string (n mod 10))"

definition is_digit :: "code_unit \<Rightarrow> bool" where
  "is_digit c \<longleftrightarrow> 48 \<le> c \<and> c \<le> 57"

definition digit_value :: "code_unit \<Rightarrow> nat" where
  "digit_value c = unat c - 48"

definition parse_digits :: "js_string \<Rightarrow> nat" where
  "parse_digits ds = foldl (\<lambda>acc c. 10 * acc + digit_value c) 0 ds"

text \<open>
  \<open>parseFloat\<close> on the output of \<open>toFixed(1)\<close>. The number read has at most one decimal
  place and is carried as its count of tenths.
\<close>

definition parseFloat_tenths :: "js_string \<Rightarrow> nat" where
  "parseFloat_tenths s =
     (let ip = takeWhile is_digit s; rest = dropWhile is_digit s
      in case rest of
           c # d # _ \<Rightarrow>
             if c = 46 \<and> is_digit d then 10 * parse_digits ip + digit_value d
             else 10 * parse_digits ip
         | _ \<Rightarrow> 10 * parse_digits ip)"

text \<open>String conversion of a number given in tenths: \<open>15\<close> prints as \<open>1.5\<close>, \<open>10\<close> as \<open>1\<close>.\<close>

definition tenths_to_string :: "nat \<Rightarrow> js_string" where
  "tenths_to_string n =
     (if n mod 10 = 0 then nat_to_string (n div 10)
      else nat_to_string (n div 10) @ str ''.'' @ nat_to_string (n mod 10))"

definition sizes :: "js_string list" where
  "sizes = [str ''Bytes'', str ''KB'', str ''MB'', str ''GB'']"

text \<open>
  \<open>' ' + sizes[i]\<close>: an index past the end of the array reads \<open>undefined\<close>, which string
  concatenation prints as the word \<open>undefined\<close>.
\<close>

definition index_to_string :: "js_string list \<Rightarrow> nat \<Rightarrow> js_string" where
  "index_to_string xs i = (if i < length xs then xs ! i else str ''undefined'')"

definition formatFileSize :: "nat \<Rightarrow> js_string" where
  "formatFileSize bytes =
     (if bytes = 0 then str ''0 Bytes''
      else let k = 1024;
               i = floor_log k bytes
           in tenths_to_string (parseFloat_tenths (toFixed1 bytes (k ^ i)))
                @ str '' '' @ index_to_string sizes i)"

text \<open>The remainder operator \<open>%\<close> on integers takes the sign of the dividend.\<close>

definition js_rem :: "int \<Rightarrow> int \<Rightarrow> int" where
  "js_rem a b = (if a < 0 then - ((- a) mod \<bar>b\<bar>) else a mod \<bar>b\<bar>)"

text \<open>\<open>s.padStart(n, c)\<close> with a one-unit fill string \<open>c\<close>.\<close>

definition padStart :: "nat \<Rightarrow> code_unit \<Rightarrow> js_string \<Rightarrow> js_string" where
  "padStart n c s = replicate (n - length s) c @ s"

definition formatDuration :: "int \<Rightarrow> js_string" where
  "formatDuration seconds =
     (let hours = seconds div 3600;
          minutes = js_rem seconds 3600 div 60;
          secs = js_rem seconds 60
      in if hours > 0
         then int_to_string hours @ str '':'' @ padStart 2 48 (int_to_string minutes)
                @ str '':'' @ padStart 2 48 (int_to_string secs)
         else int_to_string minutes @ str '':'' @ padStart 2 48 (int_to_string secs))"

section \<open>Input validator\<close>

text \<open>
  The regular expressions of the source, as far as \<open>youtubeRegex\<close> uses them: literal
  text, the dot, a negated character class, sequence, alternation and the greedy
  quantifiers \<open>?\<close>, \<open>+\<close> and \<open>{n}\<close>.
\<close>

datatype regex =
    Lit js_string
  | Dot
  | NoneOf "code_unit list"
  | Seq regex regex
  | Alt regex regex
  | Opt regex
  | Plus regex
  | Times nat regex

text \<open>The dot matches every code unit except the four line terminators.\<close>

definition line_terminators :: "code_unit list" where
  "line_terminators = [0x000A, 0x000D, 0x2028, 0x2029]"

text \<open>
  The backtracking matcher. \<open>rmatch r s\<close> lists, in the order the engine tries them,
  what is left of \<open>s\<close> after each way of matching \<open>r\<close> at its start. A greedy
  quantifier tries one more iteration before it tries to stop, and an iteration that
  consumes nothing is not repeated.
\<close>

fun iterate_greedy :: "(js_string \<Rightarrow> js_string list) \<Rightarrow> nat \<Rightarrow> js_string \<Rightarrow> js_string list" where
  "iterate_greedy f 0 s = [s]"
| "iterate_greedy f (Suc fuel) s =
     concat (map (iterate_greedy f fuel) (filter (\<lambda>t. length t < length s) (f s))) @ [s]"

fun iterate_exactly :: "(js_string \<Rightarrow> js_string list) \<Rightarrow> nat \<Rightarrow> js_string \<Rightarrow> js_string list" where
  "iterate_exactly f 0 s = [s]"
| "iterate_exactly f (Suc n) s = concat (map (iterate_exactly f n) (f s))"

fun rmatch :: "regex \<Rightarrow> js_string \<Rightarrow> js_string list" where
  "rmatch (Lit w) s = (if take (length w) s = w then [drop (length w) s] else [])"
| "rmatch Dot s =
     (case s of [] \<Rightarrow> [] | c # t \<Rightarrow> if c \<in> set line_terminators then [] else [t])"
| "rmatch (NoneOf cs) s =
     (case s of [] \<Rightarrow> [] | c # t \<Rightarrow> if c \<in> set cs then [] else [t])"
| "rmatch (Seq r1 r2) s = concat (map (rmatch r2) (rmatch r1 s))"
| "rmatch (Alt r1 r2) s = rmatch r1 s @ rmatch r2 s"
| "rmatch (Opt r) s = rmatch r s @ [s]"
| "rmatch (Plus r) s =
     concat (map (\<lambda>t. iterate_greedy (rmatch r) (length t) t) (rmatch r s))"
| "rmatch (Times n r) s = iterate_exactly (rmatch r) n s"

text \<open>
  \<open>re.test(s)\<close> for a pattern that starts with \<open>^\<close> and carries no flag: the only
  start position that can succeed is the beginning of \<open>s\<close>, and the pattern need not
  reach its end.
\<close>

definition test_anchored :: "regex \<Rightarrow> js_string \<Rightarrow> bool" where
  "test_anchored r s \<longleftrightarrow> rmatch r s \<noteq> []"

text \<open>
  \<^verbatim>\<open>/^(https?:\/\/)?(www\.)?(youtube|youtu|youtube-nocookie)\.(com|be)\/\<close>
  \<^verbatim>\<open>(watch\?v=|embed\/|v\/|.+\?v=)?([^&=%\?]{11})/\<close>
\<close>

definition youtubeRegex :: regex where
  "youtubeRegex =
     Seq (Opt (Seq (Lit (str ''http'')) (Seq (Opt (Lit (str ''s''))) (Lit (str ''://'')))))
    (Seq (Opt (Lit (str ''www.'')))
    (Seq (Alt (Lit (str ''youtube'')) (Alt (Lit (str ''youtu'')) (Lit (str ''youtube-nocookie''))))
    (Seq (Lit (str ''.''))
    (Seq (Alt (Lit (str ''com'')) (Lit (str ''be'')))
    (Seq (Lit (str ''/''))
    (Seq (Opt (Alt (Lit (str ''watch?v=''))
              (Alt (Lit (str ''embed/''))
              (Alt (Lit (str ''v/''))
                   (Seq (Plus Dot) (Lit (str ''?v='')))))))
         (Times 11 (NoneOf (str ''&=%?'')))))))))"

definition isValidYouTubeUrl :: "js_string \<Rightarrow> bool" where
  "isValidYouTubeUrl url = test_anchored youtubeRegex url"

subsection \<open>The shape in the words of the documentation\<close>

text \<open>
  The documentation describes an accepted address as: an optional scheme, an optional
  \<open>www.\<close>, a host out of \<open>youtube\<close>, \<open>youtu\<close> and \<open>youtube-nocookie\<close>, a dot, the suffix
  \<open>com\<close> or \<open>be\<close>, a slash, a path or query segment, and a video-id token of eleven
  characters that is terminated before \<open>&\<close>, \<open>=\<close>, \<open>%\<close> or \<open>?\<close>. It puts no condition on
  the segment. A token is terminated where the string ends or one of the four characters
  follows.
\<close>

definition scheme_part :: "js_string set" where
  "scheme_part = {[], str ''http://'', str ''https://''}"

definition www_part :: "js_string set" where
  "www_part = {[], str ''www.''}"

definition host_part :: "js_string set" where
  "host_part = {str ''youtube'', str ''youtu'', str ''youtube-nocookie''}"

definition suffix_part :: "js_string set" where
  "suffix_part = {str ''com'', str ''be''}"

definition id_terminators :: "code_unit list" where
  "id_terminators = str ''&=%?''"

definition documented_shape :: "js_string \<Rightarrow> bool" where
  "documented_shape url \<longleftrightarrow>
     (\<exists>scheme\<in>scheme_part. \<exists>www\<in>www_part. \<exists>host\<in>host_part. \<exists>suffix\<in>suffix_part.
      \<exists>segment video_id rest.
        url = scheme @ www @ host @ str ''.'' @ suffix @ str ''/'' @ segment @ video_id @ rest \<and>
        length video_id = 11 \<and> set video_id \<inter> set id_terminators = {} \<and>
        (rest = [] \<or> hd rest \<in> set id_terminators))"

subsection \<open>The strings the pattern accepts\<close>

text \<open>
  What \<open>youtubeRegex\<close> itself asks for after the slash is narrower in one place and
  wider in another. Between the slash and the id it allows nothing, \<open>watch?v=\<close>,
  \<open>embed/\<close>, \<open>v/\<close>, or a non-empty run without a line terminator followed by \<open>?v=\<close>, and
  no other segment. The id is the next eleven code units, none of them one of the four
  characters; what follows them is not examined, so they need not be a whole token.
\<close>

definition pattern_segment :: "js_string set" where
  "pattern_segment =
     {[], str ''watch?v='', str ''embed/'', str ''v/''} \<union>
     {p @ str ''?v='' | p. p \<noteq> [] \<and> set p \<inter> set line_terminators = {}}"

definition pattern_video_id :: "js_string set" where
  "pattern_video_id = {v. length v = 11 \<and> set v \<inter> set (str ''&=%?'') = {}}"

definition accepted_shape :: "js_string \<Rightarrow> bool" where
  "accepted_shape url \<longleftrightarrow>
     (\<exists>scheme\<in>scheme_part. \<exists>www\<in>www_part. \<exists>host\<in>host_part. \<exists>suffix\<in>suffix_part.
      \<exists>segment\<in>pattern_segment. \<exists>video_id\<in>pattern_video_id. \<exists>rest.
        url = scheme @ www @ host @ str ''.'' @ suffix @ str ''/'' @ segment @ video_id @ rest)"

subsection \<open>What a pattern recognises\<close>

text \<open>
  \<open>recognises r L\<close>: at every input the matcher for \<open>r\<close> leaves exactly the remainders
  that follow a prefix in the language \<open>L\<close>. \<open>conc\<close> is the concatenation of languages.
\<close>

definition conc :: "js_string set \<Rightarrow> js_string set \<Rightarrow> js_string set" where
  "conc A B = {a @ b | a b. a \<in> A \<and> b \<in> B}"

definition recognises :: "regex \<Rightarrow> js_string set \<Rightarrow> bool" where
  "recognises r L \<longleftrightarrow> (\<forall>s. set (rmatch r s) = {t. \<exists>p\<in>L. s = p @ t})"

section \<open>The page\<close>

text \<open>
  The script runs against a document, timers, a console and a clipboard. A \<open>node\<close> is
  a reference into the heap of elements: \<open>createElement\<close> allocates the next index, so a
  new node is distinct from every node that exists. The answers of the document to the
  selector queries of the script are fields of the page, each named after its query.
\<close>

type_synonym node = nat

text \<open>
  Numbers that are not integers: exact rationals and the three special values of a
  JavaScript number. Rounding and the sign of zero are not modelled.
\<close>

datatype number = Finite rat | PosInf | NegInf | NaN

datatype style_prop = StyleTop | StyleLeft | StylePosition | StyleOpacity | StyleWidth

text \<open>A style value is a string; \<open>Percent x\<close> stands for the string \<open>x + '%'\<close>.\<close>

datatype css_value = Text js_string | Percent number

record element =
  localName :: js_string
  className :: js_string
  innerHTML :: js_string
  el_value :: js_string
  style :: "style_prop \<rightharpoonup> css_value"
  parentNode :: "node option"
  childNodes :: "node list"

text \<open>
  The two timer callbacks of the script, each a closure over one node:
  \<^verbatim>\<open>() => { alert.style.opacity = '0'; setTimeout(() => alert.remove(), 300); }\<close> and
  \<^verbatim>\<open>() => alert.remove()\<close>.
\<close>

datatype callback = FadeOut node | Remove node

text \<open>The state \<open>animate\<close> closes over: the element, the start time, the target, the duration.\<close>

record animation =
  anim_element :: node
  startTime :: rat
  targetWidth :: rat
  anim_duration :: rat

text \<open>The submit listeners the script installs; the first closes over the URL field.\<close>

datatype listener = AnalyzeSubmit node | DownloadSubmit

datatype js_error = NotFoundError | CopyError

record event =
  defaultPrevented :: bool

record page =
  heap :: "element list"
  body :: node
  element_ids :: "js_string \<Rightarrow> node option"
  qs_container :: "node option"
  qs_analyze_form :: "node option"
  qs_download_form :: "node option"
  qs_quality_checked :: "node option"
  qsa_alert :: "node list"
  qs_btn_close :: "node \<Rightarrow> node option"
  listeners :: "(node \<times> listener) list"
  timers :: "(rat \<times> callback) list"
  frame_requests :: "animation list"
  clock :: rat
  console :: "js_string list"
  clipboard :: js_string
  activeElement :: "node option"
  selection :: js_string

subsection \<open>Document operations\<close>

definition new_element :: "js_string \<Rightarrow> element" where
  "new_element tag =
     \<lparr>localName = tag, className = [], innerHTML = [], el_value = [], style = Map.empty,
      parentNode = None, childNodes = []\<rparr>"

definition createElement :: "js_string \<Rightarrow> page \<Rightarrow> node \<times> page" where
  "createElement tag pg = (length (heap pg), pg\<lparr>heap := heap pg @ [new_element tag]\<rparr>)"

definition update_element :: "node \<Rightarrow> (element \<Rightarrow> element) \<Rightarrow> page \<Rightarrow> page" where
  "update_element n f pg = pg\<lparr>heap := (heap pg)[n := f (heap pg ! n)]\<rparr>"

definition set_className :: "node \<Rightarrow> js_string \<Rightarrow> page \<Rightarrow> page" where
  "set_className n v = update_element n (\<lambda>e. e\<lparr>className := v\<rparr>)"

definition set_innerHTML :: "node \<Rightarrow> js_string \<Rightarrow> page \<Rightarrow> page" where
  "set_innerHTML n v = update_element n (\<lambda>e. e\<lparr>innerHTML := v\<rparr>)"

definition set_value :: "node \<Rightarrow> js_string \<Rightarrow> page \<Rightarrow> page" where
  "set_value n v = update_element n (\<lambda>e. e\<lparr>el_value := v\<rparr>)"

definition set_style :: "node \<Rightarrow> style_prop \<Rightarrow> css_value \<Rightarrow> page \<Rightarrow> page" where
  "set_style n p v = update_element n (\<lambda>e. e\<lparr>style := (style e)(p \<mapsto> v)\<rparr>)"

definition value_of :: "page \<Rightarrow> node \<Rightarrow> js_string" where
  "value_of pg n = (if n < length (heap pg) then el_value (heap pg ! n) else [])"

definition class_of :: "page \<Rightarrow> node \<Rightarrow> js_string" where
  "class_of pg n = (if n < length (heap pg) then className (heap pg ! n) else [])"

definition markup_of :: "page \<Rightarrow> node \<Rightarrow> js_string" where
  "markup_of pg n = (if n < length (heap pg) then innerHTML (heap pg ! n) else [])"

definition style_of :: "page \<Rightarrow> node \<Rightarrow> style_prop \<Rightarrow> css_value option" where
  "style_of pg n p = (if n < length (heap pg) then style (heap pg ! n) p else None)"

definition children :: "page \<Rightarrow> node \<Rightarrow> node list" where
  "children pg n = (if n < length (heap pg) then childNodes (heap pg ! n) else [])"

definition parent_of :: "page \<Rightarrow> node \<Rightarrow> node option" where
  "parent_of pg n = (if n < length (heap pg) then parentNode (heap pg ! n) else None)"

definition firstChild :: "page \<Rightarrow> node \<Rightarrow> node option" where
  "firstChild pg n = (case children pg n of [] \<Rightarrow> None | c # _ \<Rightarrow> Some c)"

text \<open>Taking a node out of its parent's child list; nothing happens to a node without a parent.\<close>

definition detach :: "node \<Rightarrow> page \<Rightarrow> page" where
  "detach n pg =
     (case parent_of pg n of
        None \<Rightarrow> pg
      | Some p \<Rightarrow>
          update_element n (\<lambda>e. e\<lparr>parentNode := None\<rparr>)
            (update_element p (\<lambda>e. e\<lparr>childNodes := remove1 n (childNodes e)\<rparr>) pg))"

text \<open>
  \<open>parent.insertBefore(new, ref)\<close>: before the child \<open>ref\<close>, or at the end when \<open>ref\<close> is
  \<open>null\<close>. Where \<open>ref\<close> is not a child of \<open>parent\<close> the document raises and stays as it
  was; the script passes the parent's own \<open>firstChild\<close>, so this does not occur.
\<close>

fun insert_before :: "node \<Rightarrow> node option \<Rightarrow> node list \<Rightarrow> node list" where
  "insert_before new None xs = xs @ [new]"
| "insert_before new (Some r) [] = []"
| "insert_before new (Some r) (x # xs) =
     (if x = r then new # x # xs else x # insert_before new (Some r) xs)"

definition insertBefore :: "node \<Rightarrow> node \<Rightarrow> node option \<Rightarrow> page \<Rightarrow> page" where
  "insertBefore parent new ref pg =
     (case ref of
        Some r \<Rightarrow>
          if r \<in> set (children pg parent)
          then update_element new (\<lambda>e. e\<lparr>parentNode := Some parent\<rparr>)
                 (update_element parent
                    (\<lambda>e. e\<lparr>childNodes := insert_before new ref (childNodes e)\<rparr>) (detach new pg))
          else pg
      | None \<Rightarrow>
          update_element new (\<lambda>e. e\<lparr>parentNode := Some parent\<rparr>)
            (update_element parent
               (\<lambda>e. e\<lparr>childNodes := insert_before new ref (childNodes e)\<rparr>) (detach new pg)))"

definition appendChild :: "node \<Rightarrow> node \<Rightarrow> page \<Rightarrow> page" where
  "appendChild parent new pg = insertBefore parent new None pg"

text \<open>\<open>parent.removeChild(child)\<close> raises \<open>NotFoundError\<close> when \<open>child\<close> is not a child of \<open>parent\<close>.\<close>

definition removeChild :: "node \<Rightarrow> node \<Rightarrow> page \<Rightarrow> js_error + page" where
  "removeChild parent child pg =
     (if parent_of pg child = Some parent then Inr (detach child pg) else Inl NotFoundError)"

text \<open>\<open>node.remove()\<close> does nothing to a node that has no parent.\<close>

definition remove :: "node \<Rightarrow> page \<Rightarrow> page" where
  "remove n pg = detach n pg"

definition focus :: "node \<Rightarrow> page \<Rightarrow> page" where
  "focus n pg = pg\<lparr>activeElement := Some n\<rparr>"

definition select :: "node \<Rightarrow> page \<Rightarrow> page" where
  "select n pg = pg\<lparr>selection := value_of pg n\<rparr>"

definition console_error :: "js_string \<Rightarrow> page \<Rightarrow> page" where
  "console_error msg pg = pg\<lparr>console := console pg @ [msg]\<rparr>"

definition preventDefault :: "event \<Rightarrow> event" where
  "preventDefault e = e\<lparr>defaultPrevented := True\<rparr>"

subsection \<open>Timers\<close>

text \<open>\<open>setTimeout(cb, delay)\<close> records the callback with the time at which it is due.\<close>

definition setTimeout :: "callback \<Rightarrow> rat \<Rightarrow> page \<Rightarrow> page" where
  "setTimeout cb delay pg = pg\<lparr>timers := timers pg @ [(clock pg + delay, cb)]\<rparr>"

fun run_callback :: "callback \<Rightarrow> page \<Rightarrow> page" where
  "run_callback (FadeOut n) pg =
     setTimeout (Remove n) 300 (set_style n StyleOpacity (Text (str ''0'')) pg)"
| "run_callback (Remove n) pg = remove n pg"

text \<open>
  The event loop fires a timer once the clock has reached its due time: the timer leaves
  the list and its callback runs. Nothing else takes a timer off the list; the script
  never calls \<open>clearTimeout\<close>.
\<close>

definition fire_timer :: "nat \<Rightarrow> page \<Rightarrow> page option" where
  "fire_timer i pg =
     (if i < length (timers pg) \<and> fst (timers pg ! i) \<le> clock pg
      then Some (run_callback (snd (timers pg ! i))
                   (pg\<lparr>timers := take i (timers pg) @ drop (Suc i) (timers pg)\<rparr>))
      else None)"

section \<open>The script\<close>

subsection \<open>Alert presenter\<close>

text \<open>
  \<open>showAlert(message, type = 'info')\<close>. An absent second argument is \<open>None\<close>. The banner is
  created, given its class (the first template of the source) and its markup (the
  second), put in front of the children of the first
  \<open>.container\<close> element if there is one, and scheduled for dismissal in either case.
\<close>

definition alert_class :: "js_string \<Rightarrow> js_string" where
  "alert_class ty =
     str ''alert alert-'' @ (if ty = str ''error'' then str ''danger'' else str ''success'')
       @ str '' alert-dismissible fade show''"

definition alert_markup :: "js_string \<Rightarrow> js_string \<Rightarrow> js_string" where
  \<open>alert_markup ty message =
     [10] @ str ''        <i class="fas fa-''
       @ (if ty = str ''error'' then str ''exclamation-triangle'' else str ''check-circle'')
       @ str '' me-2"></i>'' @ [10]
       @ str ''        '' @ message @ [10]
       @ str ''        <button type="button" class="btn-close" data-bs-dismiss="alert"></button>''
       @ [10] @ str ''    ''\<close>

definition showAlert :: "js_string \<Rightarrow> js_string option \<Rightarrow> page \<Rightarrow> page" where
  "showAlert message type_arg pg =
     (let ty = (case type_arg of None \<Rightarrow> str ''info'' | Some t \<Rightarrow> t);
          (alertContainer, pg1) = createElement (str ''div'') pg;
          pg2 = set_className alertContainer (alert_class ty) pg1;
          pg3 = set_innerHTML alertContainer (alert_markup ty message) pg2;
          pg4 = (case qs_container pg3 of
                   Some container \<Rightarrow>
                     insertBefore container alertContainer (firstChild pg3 container) pg3
                 | None \<Rightarrow> pg3)
      in setTimeout (FadeOut alertContainer) 5000 pg4)"

subsection \<open>Page load\<close>

text \<open>\<open>s.trim()\<close> removes white space and line terminators from both ends.\<close>

definition js_whitespace :: "code_unit list" where
  "js_whitespace =
     [0x0009, 0x000A, 0x000B, 0x000C, 0x000D, 0x0020, 0x00A0, 0x1680,
      0x2000, 0x2001, 0x2002, 0x2003, 0x2004, 0x2005, 0x2006, 0x2007, 0x2008, 0x2009, 0x200A,
      0x2028, 0x2029, 0x202F, 0x205F, 0x3000, 0xFEFF]"

definition is_whitespace :: "code_unit \<Rightarrow> bool" where
  "is_whitespace c \<longleftrightarrow> c \<in> set js_whitespace"

definition trim :: "js_string \<Rightarrow> js_string" where
  "trim s = rev (dropWhile is_whitespace (rev (dropWhile is_whitespace s)))"

text \<open>The submit listener of the analyze form; \<open>urlInput\<close> is the field it closes over.\<close>

definition analyze_submit :: "node \<Rightarrow> event \<Rightarrow> page \<Rightarrow> event \<times> page" where
  "analyze_submit urlInput e pg =
     (let url = trim (value_of pg urlInput)
      in if url = []
         then (preventDefault e,
               showAlert (str ''Please enter a YouTube URL'') (Some (str ''error'')) pg)
         else if \<not> isValidYouTubeUrl url
         then (preventDefault e,
               showAlert (str ''Please enter a valid YouTube URL'') (Some (str ''error'')) pg)
         else (e, pg))"

text \<open>The submit listener of the download form.\<close>

definition download_submit :: "event \<Rightarrow> page \<Rightarrow> event \<times> page" where
  "download_submit e pg =
     (let selectedQuality = qs_quality_checked pg
      in if selectedQuality = None
         then (preventDefault e,
               showAlert (str ''Please select a quality option'') (Some (str ''error'')) pg)
         else (e, pg))"

definition addEventListener :: "node \<Rightarrow> listener \<Rightarrow> page \<Rightarrow> page" where
  "addEventListener target l pg = pg\<lparr>listeners := listeners pg @ [(target, l)]\<rparr>"

fun run_listener :: "listener \<Rightarrow> event \<Rightarrow> page \<Rightarrow> event \<times> page" where
  "run_listener (AnalyzeSubmit urlInput) e pg = analyze_submit urlInput e pg"
| "run_listener DownloadSubmit e pg = download_submit e pg"

text \<open>One step of the pass over the alerts that are in the document at load time.\<close>

definition auto_dismiss :: "page \<Rightarrow> node \<Rightarrow> page" where
  "auto_dismiss pg alert =
     (if qs_btn_close pg alert = None then setTimeout (FadeOut alert) 5000 pg else pg)"

text \<open>The \<open>DOMContentLoaded\<close> listener.\<close>

definition on_load :: "page \<Rightarrow> page" where
  "on_load pg =
     (let urlInput = element_ids pg (str ''url'');
          form = qs_analyze_form pg;
          pg1 = (case (form, urlInput) of
                   (Some f, Some u) \<Rightarrow> addEventListener f (AnalyzeSubmit u) pg
                 | _ \<Rightarrow> pg);
          downloadForm = qs_download_form pg1;
          pg2 = (case downloadForm of
                   Some d \<Rightarrow> addEventListener d DownloadSubmit pg1
                 | None \<Rightarrow> pg1);
          alerts = qsa_alert pg2
      in foldl auto_dismiss pg2 alerts)"

subsection \<open>Clipboard helper\<close>

text \<open>
  What the platform does is not in the script and is a parameter: whether
  \<open>navigator.clipboard\<close> exists, whether the context is secure, whether the promise of
  \<open>writeText\<close> is fulfilled, and what \<open>document.execCommand('copy')\<close> does. That command
  returns \<open>true\<close> when it has copied the selection, returns \<open>false\<close> when the command is
  unsupported or disabled, or throws. The continuations of the promise are run in place.
\<close>

datatype exec_outcome = ExecReturns bool | ExecThrows

record platform =
  has_clipboard :: bool
  isSecureContext :: bool
  writeText_fulfilled :: bool
  execCommand_copy :: exec_outcome

definition execCommand :: "platform \<Rightarrow> page \<Rightarrow> js_error + page" where
  "execCommand env pg =
     (case execCommand_copy env of
        ExecReturns True \<Rightarrow> Inr (pg\<lparr>clipboard := selection pg\<rparr>)
      | ExecReturns False \<Rightarrow> Inr pg
      | ExecThrows \<Rightarrow> Inl CopyError)"

definition fallbackCopyTextToClipboard :: "platform \<Rightarrow> js_string \<Rightarrow> page \<Rightarrow> js_error + page" where
  "fallbackCopyTextToClipboard env text pg =
     (let (textArea, pg1) = createElement (str ''textarea'') pg;
          pg2 = set_value textArea text pg1;
          pg3 = set_style textArea StyleTop (Text (str ''0'')) pg2;
          pg4 = set_style textArea StyleLeft (Text (str ''0'')) pg3;
          pg5 = set_style textArea StylePosition (Text (str ''fixed'')) pg4;
          pg6 = appendChild (body pg5) textArea pg5;
          pg7 = focus textArea pg6;
          pg8 = select textArea pg7;
          pg9 = (case execCommand env pg8 of
                   Inr copied \<Rightarrow>
                     showAlert (str ''URL copied to clipboard!'') (Some (str ''success'')) copied
                 | Inl err \<Rightarrow>
                     showAlert (str ''Failed to copy URL'') (Some (str ''error''))
                       (console_error (str ''Fallback: Oops, unable to copy'') pg8))
      in removeChild (body pg9) textArea pg9)"

text \<open>
  The first half of \<open>fallbackCopyTextToClipboard\<close> on its own: the page at the moment
  the copy command is issued, with the text area in the body, focused and selected.
\<close>

definition before_copy :: "js_string \<Rightarrow> page \<Rightarrow> page" where
  "before_copy text pg =
     (let (textArea, pg1) = createElement (str ''textarea'') pg;
          pg2 = set_value textArea text pg1;
          pg3 = set_style textArea StyleTop (Text (str ''0'')) pg2;
          pg4 = set_style textArea StyleLeft (Text (str ''0'')) pg3;
          pg5 = set_style textArea StylePosition (Text (str ''fixed'')) pg4;
          pg6 = appendChild (body pg5) textArea pg5;
          pg7 = focus textArea pg6
      in select textArea pg7)"

definition copyToClipboard :: "platform \<Rightarrow> js_string \<Rightarrow> page \<Rightarrow> js_error + page" where
  "copyToClipboard env text pg =
     (if has_clipboard env \<and> isSecureContext env
      then if writeText_fulfilled env
           then Inr (showAlert (str ''URL copied to clipboard!'') (Some (str ''success''))
                       (pg\<lparr>clipboard := text\<rparr>))
           else fallbackCopyTextToClipboard env text (console_error (str ''Failed to copy: '') pg)
      else fallbackCopyTextToClipboard env text pg)"

subsection \<open>Progress animator\<close>

text \<open>
  \<open>x / y\<close> on finite numbers: a zero divisor gives \<open>NaN\<close> for \<open>0 / 0\<close> and an infinity of
  the sign of \<open>x\<close> otherwise.
\<close>

definition num_div :: "rat \<Rightarrow> rat \<Rightarrow> number" where
  "num_div x y =
     (if y \<noteq> 0 then Finite (x / y)
      else if x = 0 then NaN else if 0 < x then PosInf else NegInf)"

text \<open>\<open>Math.min(p, 1)\<close>.\<close>

fun math_min_1 :: "number \<Rightarrow> number" where
  "math_min_1 (Finite x) = Finite (min x 1)"
| "math_min_1 PosInf = Finite 1"
| "math_min_1 NegInf = NegInf"
| "math_min_1 NaN = NaN"

text \<open>\<open>a * p\<close> and \<open>a + p\<close> for a finite \<open>a\<close>.\<close>

fun num_times :: "rat \<Rightarrow> number \<Rightarrow> number" where
  "num_times a (Finite x) = Finite (a * x)"
| "num_times a PosInf = (if a = 0 then NaN else if 0 < a then PosInf else NegInf)"
| "num_times a NegInf = (if a = 0 then NaN else if 0 < a then NegInf else PosInf)"
| "num_times a NaN = NaN"

fun num_plus :: "rat \<Rightarrow> number \<Rightarrow> number" where
  "num_plus a (Finite x) = Finite (a + x)"
| "num_plus a PosInf = PosInf"
| "num_plus a NegInf = NegInf"
| "num_plus a NaN = NaN"

text \<open>\<open>p < 1\<close>; a comparison with \<open>NaN\<close> is false.\<close>

fun less_than_1 :: "number \<Rightarrow> bool" where
  "less_than_1 (Finite x) \<longleftrightarrow> x < 1"
| "less_than_1 PosInf \<longleftrightarrow> False"
| "less_than_1 NegInf \<longleftrightarrow> True"
| "less_than_1 NaN \<longleftrightarrow> False"

definition requestAnimationFrame :: "animation \<Rightarrow> page \<Rightarrow> page" where
  "requestAnimationFrame a pg = pg\<lparr>frame_requests := frame_requests pg @ [a]\<rparr>"

text \<open>The frame callback \<open>animate(currentTime)\<close> of one call of \<open>animateProgressBar\<close>.\<close>

definition animate :: "animation \<Rightarrow> rat \<Rightarrow> page \<Rightarrow> page" where
  "animate a currentTime pg =
     (let startWidth = 0;
          elapsed = currentTime - startTime a;
          progress = math_min_1 (num_div elapsed (anim_duration a));
          currentWidth = num_plus startWidth (num_times (targetWidth a - startWidth) progress);
          pg1 = set_style (anim_element a) StyleWidth (Percent currentWidth) pg
      in if less_than_1 progress then requestAnimationFrame a pg1 else pg1)"

text \<open>
  \<open>animateProgressBar(elementId, targetWidth, duration = 1000)\<close>; \<open>performance.now()\<close>
  reads the clock.
\<close>

definition animateProgressBar :: "js_string \<Rightarrow> rat \<Rightarrow> rat option \<Rightarrow> page \<Rightarrow> page" where
  "animateProgressBar elementId target duration_arg pg =
     (let duration = (case duration_arg of None \<Rightarrow> 1000 | Some d \<Rightarrow> d)
      in case element_ids pg elementId of
           None \<Rightarrow> pg
         | Some element \<Rightarrow>
             requestAnimationFrame
               \<lparr>anim_element = element, startTime = clock pg, targetWidth = target,
                anim_duration = duration\<rparr> pg)"

text \<open>
  A frame at time \<open>t\<close>: the browser takes the callbacks requested since the last frame
  and runs each with \<open>t\<close>.
\<close>

definition deliver_frame :: "rat \<Rightarrow> page \<Rightarrow> page" where
  "deliver_frame t pg =
     foldl (\<lambda>p a. animate a t p) (pg\<lparr>frame_requests := [], clock := t\<rparr>) (frame_requests pg)"

subsection \<open>Well-formed pages and an example\<close>

text \<open>
  References held by the page point into the heap: the body, the container the query
  finds, and every entry of a child list.
\<close>

definition wf_page :: "page \<Rightarrow> bool" where
  "wf_page pg \<longleftrightarrow>
     body pg < length (heap pg) \<and>
     (case qs_container pg of None \<Rightarrow> True | Some c \<Rightarrow> c < length (heap pg)) \<and>
     list_all (\<lambda>e. list_all (\<lambda>c. c < length (heap pg)) (childNodes e)) (heap pg)"

text \<open>
  A small page: \<open>html\<close> (0), \<open>body\<close> (1), a \<open>div.container\<close> (2) holding the analyze
  form (3) with the URL field (7), the download form (4) with a quality radio (10), an
  alert without a close button (5), an alert (6) with a close button (8), and a progress
  bar (9).
\<close>

definition example_heap :: "element list" where
  "example_heap =
     [(new_element (str ''html''))\<lparr>childNodes := [1]\<rparr>,
      (new_element (str ''body''))\<lparr>parentNode := Some 0, childNodes := [2]\<rparr>,
      (new_element (str ''div''))\<lparr>className := str ''container'', parentNode := Some 1,
         childNodes := [3, 4, 5, 6, 9]\<rparr>,
      (new_element (str ''form''))\<lparr>parentNode := Some 2, childNodes := [7]\<rparr>,
      (new_element (str ''form''))\<lparr>parentNode := Some 2, childNodes := [10]\<rparr>,
      (new_element (str ''div''))\<lparr>className := str ''alert alert-info'', parentNode := Some 2\<rparr>,
      (new_element (str ''div''))\<lparr>className := str ''alert alert-info alert-dismissible'',
         parentNode := Some 2, childNodes := [8]\<rparr>,
      (new_element (str ''input''))\<lparr>parentNode := Some 3\<rparr>,
      (new_element (str ''button''))\<lparr>className := str ''btn-close'', parentNode := Some 6\<rparr>,
      (new_element (str ''div''))\<lparr>className := str ''progress-bar'', parentNode := Some 2\<rparr>,
      (new_element (str ''input''))\<lparr>parentNode := Some 4\<rparr>]"

definition example_page :: page where
  "example_page =
     \<lparr>heap = example_heap,
      body = 1,
      element_ids = (\<lambda>i. if i = str ''url'' then Some 7
                          else if i = str ''progress'' then Some 9 else None),
      qs_container = Some 2,
      qs_analyze_form = Some 3,
      qs_download_form = Some 4,
      qs_quality_checked = None,
      qsa_alert = [5, 6],
      qs_btn_close = (\<lambda>n. if n = 6 then Some 8 else None),
      listeners = [],
      timers = [],
      frame_requests = [],
      clock = 0,
      console = [],
      clipboard = [],
      activeElement = None,
      selection = []\<rparr>"

section \<open>Evaluation rules\<close>

declare nat_to_string.simps [simp del]

lemma nat_to_string_small: "n < 10 \<Longrightarrow> nat_to_string n = [48 + of_nat n]"
  by (subst nat_to_string.simps) simp

lemma nat_to_string_large:
  "10 \<le> n \<Longrightarrow> nat_to_string n = nat_to_string (n div 10) @ [48 + of_nat (n mod 10)]"
  by (subst nat_to_string.simps) simp

declare floor_log.simps [simp del]

lemma floor_log_stop: "k < 2 \<or> n < k \<Longrightarrow> floor_log k n = 0"
  by (subst floor_log.simps) simp

lemma floor_log_step:
  "2 \<le> k \<Longrightarrow> k \<le> n \<Longrightarrow> floor_log k n = Suc (floor_log k (n div k))"
  by (subst floor_log.simps) simp

lemmas number_eval =
  nat_to_string_small nat_to_string_large floor_log_stop floor_log_step
  int_to_string_def toFixed1_def is_digit_def digit_value_def parse_digits_def
  parseFloat_tenths_def tenths_to_string_def sizes_def index_to_string_def
  js_rem_def padStart_def str_def Let_def

section \<open>Formatters: the documented examples\<close>

text \<open>
  Claim C3. On the inputs the documentation gives, \<open>formatFileSize(0)\<close> is \<open>0 Bytes\<close>,
  \<open>formatFileSize(1024)\<close> is \<open>1 KB\<close>, \<open>formatFileSize(1536)\<close> is \<open>1.5 KB\<close>,
  \<open>formatDuration(65)\<close> is \<open>1:05\<close> and \<open>formatDuration(3661)\<close> is \<open>1:01:01\<close>.
\<close>

theorem format_examples:
  "formatFileSize 0 = str ''0 Bytes'' \<and>
   formatFileSize 1024 = str ''1 KB'' \<and>
   formatFileSize 1536 = str ''1.5 KB'' \<and>
   formatDuration 65 = str ''1:05'' \<and>
   formatDuration 3661 = str ''1:01:01''"
  by (simp add: formatFileSize_def formatDuration_def number_eval)

lemma floor_log_less_iff:
  assumes "2 \<le> k" and "0 < n"
  shows "floor_log k n < m \<longleftrightarrow> n < k ^ m"
  using assms(2)
proof (induction m arbitrary: n)
  case 0
  then show ?case by simp
next
  case (Suc m)
  show ?case
  proof (cases "n < k")
    case True
    have "0 < k ^ m" using assms(1) by simp
    then have "k \<le> k * k ^ m" by simp
    with True have "n < k * k ^ m" by (rule less_le_trans)
    then show ?thesis using True by (simp add: floor_log_stop)
  next
    case False
    then have pos: "0 < n div k" using assms(1) by (simp add: div_greater_zero_iff)
    have "floor_log k n < Suc m \<longleftrightarrow> floor_log k (n div k) < m"
      using False assms(1) by (simp add: floor_log_step)
    also have "\<dots> \<longleftrightarrow> n div k < k ^ m"
      by (rule Suc.IH [OF pos])
    also have "\<dots> \<longleftrightarrow> n < k ^ Suc m"
      using assms(1) by (simp add: div_less_iff_less_mult mult.commute)
    finally show ?thesis .
  qed
qed

text \<open>
  The label is one of the four while the byte count is below \<open>1024 ^ 4\<close>, and is the
  word \<open>undefined\<close> from there on.
\<close>

lemma formatFileSize_label:
  assumes "0 < bytes"
  shows "\<exists>magnitude. formatFileSize bytes =
           magnitude @ str '' '' @
             (if bytes < 1024 ^ 4 then sizes ! floor_log 1024 bytes else str ''undefined'')"
    and "bytes < 1024 ^ 4 \<Longrightarrow> sizes ! floor_log 1024 bytes \<in> set sizes"
proof -
  have range: "floor_log 1024 bytes < 4 \<longleftrightarrow> bytes < 1024 ^ 4"
    using assms by (simp add: floor_log_less_iff)
  have "length sizes = 4" by (simp add: sizes_def)
  then have "index_to_string sizes (floor_log 1024 bytes) =
               (if bytes < 1024 ^ 4 then sizes ! floor_log 1024 bytes else str ''undefined'')"
    using range by (simp add: index_to_string_def)
  then show "\<exists>magnitude. formatFileSize bytes =
           magnitude @ str '' '' @
             (if bytes < 1024 ^ 4 then sizes ! floor_log 1024 bytes else str ''undefined'')"
    using assms by (simp add: formatFileSize_def Let_def)
  show "bytes < 1024 ^ 4 \<Longrightarrow> sizes ! floor_log 1024 bytes \<in> set sizes"
    using range \<open>length sizes = 4\<close> by simp
qed

text \<open>
  Claim C2. \<open>formatFileSize\<close> is meant to end every result in one of the four labels of
  \<open>sizes\<close>. At two tebibytes the computed index is 4, one past the end of the table,
  and the result ends in the word \<open>undefined\<close>.
\<close>

theorem formatFileSize_two_tebibytes:
  "formatFileSize 2199023255552 = str ''2 undefined''"
  by (simp add: formatFileSize_def number_eval)

section \<open>What the validator accepts\<close>

lemma take_eq_iff_prefix: "take (length w) s = w \<longleftrightarrow> (\<exists>t. s = w @ t)"
  by (metis append_eq_conv_conj append_take_drop_id)

lemma recognises_Lit: "recognises (Lit w) {w}"
  unfolding recognises_def
proof
  fix s
  show "set (rmatch (Lit w) s) = {t. \<exists>p\<in>{w}. s = p @ t}"
  proof (cases "take (length w) s = w")
    case True
    then have "s = w @ drop (length w) s"
      by (metis append_take_drop_id)
    then show ?thesis using True by auto
  next
    case False
    then show ?thesis by (auto simp: take_eq_iff_prefix)
  qed
qed

lemma recognises_Seq:
  assumes "recognises r1 A" and "recognises r2 B"
  shows "recognises (Seq r1 r2) (conc A B)"
  unfolding recognises_def
proof
  fix s
  have "set (rmatch (Seq r1 r2) s) = (\<Union>u\<in>set (rmatch r1 s). set (rmatch r2 u))"
    by simp
  also have "\<dots> = {t. \<exists>a\<in>A. \<exists>b\<in>B. s = a @ b @ t}"
    using assms unfolding recognises_def by auto
  also have "\<dots> = {t. \<exists>p\<in>conc A B. s = p @ t}"
    unfolding conc_def by (auto; blast)
  finally show "set (rmatch (Seq r1 r2) s) = {t. \<exists>p\<in>conc A B. s = p @ t}" .
qed

lemma recognises_Alt:
  assumes "recognises r1 A" and "recognises r2 B"
  shows "recognises (Alt r1 r2) (A \<union> B)"
  using assms unfolding recognises_def by auto

lemma recognises_Opt:
  assumes "recognises r A"
  shows "recognises (Opt r) (insert [] A)"
  using assms unfolding recognises_def by auto

lemma iterate_exactly_NoneOf:
  "set (iterate_exactly (rmatch (NoneOf cs)) n s) =
     {t. \<exists>p. length p = n \<and> set p \<inter> set cs = {} \<and> s = p @ t}"
proof (induction n arbitrary: s)
  case 0
  show ?case by auto
next
  case (Suc n)
  show ?case
  proof (cases s)
    case Nil
    then show ?thesis by auto
  next
    case (Cons c u)
    show ?thesis
    proof (cases "c \<in> set cs")
      case True
      have "\<And>p t. length p = Suc n \<Longrightarrow> s = p @ t \<Longrightarrow> set p \<inter> set cs \<noteq> {}"
      proof -
        fix p t assume "length p = Suc n" and "s = p @ t"
        then obtain q where "p = c # q" using Cons by (cases p) auto
        then show "set p \<inter> set cs \<noteq> {}" using True by auto
      qed
      then show ?thesis using Cons True by auto
    next
      case False
      have "{t. \<exists>p. length p = Suc n \<and> set p \<inter> set cs = {} \<and> s = p @ t}
            = {t. \<exists>q. length q = n \<and> set q \<inter> set cs = {} \<and> u = q @ t}" (is "?L = ?R")
      proof (rule set_eqI, rule iffI)
        fix t assume "t \<in> ?L"
        then obtain p where p: "length p = Suc n" "set p \<inter> set cs = {}" "s = p @ t" by auto
        then obtain q where q: "p = c # q" using Cons by (cases p) auto
        with p Cons show "t \<in> ?R" by auto
      next
        fix t assume "t \<in> ?R"
        then obtain q where q: "length q = n" "set q \<inter> set cs = {}" "u = q @ t" by auto
        then have "length (c # q) = Suc n \<and> set (c # q) \<inter> set cs = {} \<and> s = (c # q) @ t"
          using False Cons by auto
        then show "t \<in> ?L" by blast
      qed
      then show ?thesis using Cons False Suc.IH by simp
    qed
  qed
qed

lemma iterate_greedy_Dot:
  "length s \<le> k \<Longrightarrow>
   set (iterate_greedy (rmatch Dot) k s) =
     {t. \<exists>p. set p \<inter> set line_terminators = {} \<and> s = p @ t}"
proof (induction k arbitrary: s)
  case 0
  then show ?case by auto
next
  case (Suc k)
  show ?case
  proof (cases s)
    case Nil
    then show ?thesis by auto
  next
    case (Cons c u)
    show ?thesis
    proof (cases "c \<in> set line_terminators")
      case True
      have "\<And>p t. s = p @ t \<Longrightarrow> set p \<inter> set line_terminators = {} \<Longrightarrow> p = []"
      proof -
        fix p t assume "s = p @ t" and free: "set p \<inter> set line_terminators = {}"
        then have "p = [] \<or> (\<exists>q. p = c # q)" using Cons by (cases p) auto
        then show "p = []" using True free by auto
      qed
      then have "{t. \<exists>p. set p \<inter> set line_terminators = {} \<and> s = p @ t} = {s}"
        by auto
      then show ?thesis using Cons True by simp
    next
      case False
      have len: "length u \<le> k" using Suc.prems Cons by simp
      have "{t. \<exists>p. set p \<inter> set line_terminators = {} \<and> s = p @ t}
            = insert s {t. \<exists>q. set q \<inter> set line_terminators = {} \<and> u = q @ t}"
        (is "?L = insert s ?R")
      proof (rule set_eqI, rule iffI)
        fix t assume "t \<in> ?L"
        then obtain p where p: "set p \<inter> set line_terminators = {}" "s = p @ t" by auto
        show "t \<in> insert s ?R"
        proof (cases p)
          case Nil
          then show ?thesis using p by simp
        next
          case (Cons d q)
          then show ?thesis using p \<open>s = c # u\<close> by auto
        qed
      next
        fix t assume "t \<in> insert s ?R"
        then consider "t = s" | q where "set q \<inter> set line_terminators = {}" "u = q @ t"
          by auto
        then show "t \<in> ?L"
        proof cases
          case 1
          then have "set [] \<inter> set line_terminators = {} \<and> s = [] @ t" by simp
          then show ?thesis by blast
        next
          case 2
          then have "set (c # q) \<inter> set line_terminators = {} \<and> s = (c # q) @ t"
            using False Cons by auto
          then show ?thesis by blast
        qed
      qed
      then show ?thesis using Cons False Suc.IH [OF len] by simp
    qed
  qed
qed

lemma recognises_Plus_Dot:
  "recognises (Plus Dot) {p. p \<noteq> [] \<and> set p \<inter> set line_terminators = {}}"
  unfolding recognises_def
proof
  fix s
  show "set (rmatch (Plus Dot) s) =
          {t. \<exists>p\<in>{p. p \<noteq> [] \<and> set p \<inter> set line_terminators = {}}. s = p @ t}"
  proof (cases s)
    case Nil
    then show ?thesis by auto
  next
    case (Cons c u)
    show ?thesis
    proof (cases "c \<in> set line_terminators")
      case True
      have "\<And>p t. s = p @ t \<Longrightarrow> p \<noteq> [] \<Longrightarrow> set p \<inter> set line_terminators \<noteq> {}"
      proof -
        fix p t assume "s = p @ t" and "p \<noteq> []"
        then obtain q where "p = c # q" using Cons by (cases p) auto
        then show "set p \<inter> set line_terminators \<noteq> {}" using True by auto
      qed
      then show ?thesis using Cons True by auto
    next
      case False
      have "{t. \<exists>p. p \<noteq> [] \<and> set p \<inter> set line_terminators = {} \<and> s = p @ t}
            = {t. \<exists>q. set q \<inter> set line_terminators = {} \<and> u = q @ t}" (is "?L = ?R")
      proof (rule set_eqI, rule iffI)
        fix t assume "t \<in> ?L"
        then obtain p where p: "p \<noteq> []" "set p \<inter> set line_terminators = {}" "s = p @ t"
          by auto
        then obtain q where "p = c # q" using Cons by (cases p) auto
        with p Cons show "t \<in> ?R" by auto
      next
        fix t assume "t \<in> ?R"
        then obtain q where "set q \<inter> set line_terminators = {}" "u = q @ t" by auto
        then have "c # q \<noteq> [] \<and> set (c # q) \<inter> set line_terminators = {} \<and> s = (c # q) @ t"
          using False Cons by auto
        then show "t \<in> ?L" by blast
      qed
      then show ?thesis using Cons False iterate_greedy_Dot [of u "length u"] by simp
    qed
  qed
qed

lemma recognises_Times_NoneOf:
  "recognises (Times n (NoneOf cs)) {v. length v = n \<and> set v \<inter> set cs = {}}"
  unfolding recognises_def by (auto simp: iterate_exactly_NoneOf)

lemma conc_singleton: "conc {a} B = (\<lambda>b. a @ b) ` B"
  by (auto simp: conc_def)

lemma bex_conc: "(\<exists>p\<in>conc A B. P p) \<longleftrightarrow> (\<exists>a\<in>A. \<exists>b\<in>B. P (a @ b))"
  by (auto simp: conc_def; blast)

lemma recognises_scheme:
  "recognises (Opt (Seq (Lit (str ''http'')) (Seq (Opt (Lit (str ''s''))) (Lit (str ''://'')))))
     scheme_part"
proof -
  have "recognises (Opt (Seq (Lit (str ''http'')) (Seq (Opt (Lit (str ''s''))) (Lit (str ''://'')))))
          (insert [] (conc {str ''http''} (conc (insert [] {str ''s''}) {str ''://''})))"
    by (intro recognises_Opt recognises_Seq recognises_Lit)
  moreover have "insert [] (conc {str ''http''} (conc (insert [] {str ''s''}) {str ''://''}))
                 = scheme_part"
    by (auto simp: conc_def scheme_part_def str_def)
  ultimately show ?thesis by simp
qed

lemma recognises_www: "recognises (Opt (Lit (str ''www.''))) www_part"
  unfolding www_part_def by (intro recognises_Opt recognises_Lit)

lemma recognises_host:
  "recognises (Alt (Lit (str ''youtube'')) (Alt (Lit (str ''youtu'')) (Lit (str ''youtube-nocookie''))))
     host_part"
proof -
  have "recognises (Alt (Lit (str ''youtube'')) (Alt (Lit (str ''youtu'')) (Lit (str ''youtube-nocookie''))))
          ({str ''youtube''} \<union> ({str ''youtu''} \<union> {str ''youtube-nocookie''}))"
    by (intro recognises_Alt recognises_Lit)
  moreover have "{str ''youtube''} \<union> ({str ''youtu''} \<union> {str ''youtube-nocookie''}) = host_part"
    unfolding host_part_def by blast
  ultimately show ?thesis by simp
qed

lemma recognises_suffix: "recognises (Alt (Lit (str ''com'')) (Lit (str ''be''))) suffix_part"
proof -
  have "recognises (Alt (Lit (str ''com'')) (Lit (str ''be''))) ({str ''com''} \<union> {str ''be''})"
    by (intro recognises_Alt recognises_Lit)
  moreover have "{str ''com''} \<union> {str ''be''} = suffix_part"
    unfolding suffix_part_def by blast
  ultimately show ?thesis by simp
qed

lemma recognises_segment:
  "recognises (Opt (Alt (Lit (str ''watch?v=''))
                   (Alt (Lit (str ''embed/''))
                   (Alt (Lit (str ''v/''))
                        (Seq (Plus Dot) (Lit (str ''?v=''))))))) pattern_segment"
proof -
  let ?D = "{p. p \<noteq> [] \<and> set p \<inter> set line_terminators = {}}"
  have "recognises (Opt (Alt (Lit (str ''watch?v=''))
                   (Alt (Lit (str ''embed/''))
                   (Alt (Lit (str ''v/''))
                        (Seq (Plus Dot) (Lit (str ''?v='')))))))
          (insert [] ({str ''watch?v=''} \<union> ({str ''embed/''} \<union> ({str ''v/''} \<union> conc ?D {str ''?v=''}))))"
    by (intro recognises_Opt recognises_Alt recognises_Seq recognises_Lit recognises_Plus_Dot)
  moreover have "insert [] ({str ''watch?v=''} \<union> ({str ''embed/''} \<union> ({str ''v/''} \<union> conc ?D {str ''?v=''})))
                 = pattern_segment"
    unfolding pattern_segment_def conc_def by blast
  ultimately show ?thesis by simp
qed

lemma recognises_video_id: "recognises (Times 11 (NoneOf (str ''&=%?''))) pattern_video_id"
  unfolding pattern_video_id_def by (rule recognises_Times_NoneOf)

lemma recognises_youtubeRegex:
  "recognises youtubeRegex
     (conc scheme_part (conc www_part (conc host_part (conc {str ''.''} (conc suffix_part
       (conc {str ''/''} (conc pattern_segment pattern_video_id)))))))"
  unfolding youtubeRegex_def
  by (intro recognises_Seq recognises_scheme recognises_www recognises_host recognises_suffix
        recognises_segment recognises_video_id recognises_Lit)

lemma isValidYouTubeUrl_iff_accepted: "isValidYouTubeUrl url \<longleftrightarrow> accepted_shape url"
proof -
  have "isValidYouTubeUrl url \<longleftrightarrow> (\<exists>t. t \<in> set (rmatch youtubeRegex url))"
    unfolding isValidYouTubeUrl_def test_anchored_def by (cases "rmatch youtubeRegex url") auto
  also have "\<dots> \<longleftrightarrow> accepted_shape url"
    using recognises_youtubeRegex unfolding recognises_def accepted_shape_def
    by (simp add: bex_conc) blast
  finally show ?thesis .
qed


lemma iterate_exactly_numeral:
  "iterate_exactly f (numeral k) s = concat (map (iterate_exactly f (pred_numeral k)) (f s))"
  by (simp add: numeral_eq_Suc)

lemmas validator_eval =
  isValidYouTubeUrl_def test_anchored_def youtubeRegex_def line_terminators_def
  iterate_exactly_numeral str_def

text \<open>
  Claim C1, as the pattern has it. \<open>isValidYouTubeUrl\<close> returns true for exactly the
  strings that begin with an optional scheme, an optional \<open>www.\<close>, one of the three
  hosts, a dot, \<open>com\<close> or \<open>be\<close>, a slash, then nothing or \<open>watch?v=\<close> or \<open>embed/\<close> or
  \<open>v/\<close> or a non-empty run without a line terminator followed by \<open>?v=\<close>, and then
  eleven code units none of which is \<open>&\<close>, \<open>=\<close>, \<open>%\<close> or \<open>?\<close>; it returns false for
  every other string. Nothing is asked of what follows the eleven units.
\<close>

theorem isValidYouTubeUrl_shape:
  "(accepted_shape url \<longrightarrow> isValidYouTubeUrl url) \<and>
   (\<not> accepted_shape url \<longrightarrow> \<not> isValidYouTubeUrl url)"
  by (simp add: isValidYouTubeUrl_iff_accepted)

text \<open>
  The claim as worded lets any path or query segment stand before the id. The address
  below is of the documented shape, with the segment \<open>watch?feature=share&v=\<close> and the
  id \<open>dQw4w9WgXcQ\<close> ending the string, and the validator rejects it: the segment is none
  of those the pattern allows.
\<close>

theorem isValidYouTubeUrl_documented_shape_counterexample:
  "documented_shape (str ''https://www.youtube.com/watch?feature=share&v=dQw4w9WgXcQ'') \<and>
   \<not> isValidYouTubeUrl (str ''https://www.youtube.com/watch?feature=share&v=dQw4w9WgXcQ'')"
proof -
  let ?url = "str ''https://www.youtube.com/watch?feature=share&v=dQw4w9WgXcQ''"
  have parts: "str ''https://'' \<in> scheme_part" "str ''www.'' \<in> www_part"
       "str ''youtube'' \<in> host_part" "str ''com'' \<in> suffix_part"
    by (simp_all add: scheme_part_def www_part_def host_part_def suffix_part_def str_def)
  have split: "?url = str ''https://'' @ str ''www.'' @ str ''youtube'' @ str ''.'' @ str ''com''
                 @ str ''/'' @ str ''watch?feature=share&v='' @ str ''dQw4w9WgXcQ'' @ []"
    by (simp add: str_def)
  have token: "length (str ''dQw4w9WgXcQ'') = 11"
    "set (str ''dQw4w9WgXcQ'') \<inter> set id_terminators = {}"
    by (simp_all add: id_terminators_def str_def)
  have "\<exists>segment video_id rest.
          ?url = str ''https://'' @ str ''www.'' @ str ''youtube'' @ str ''.'' @ str ''com''
                   @ str ''/'' @ segment @ video_id @ rest \<and>
          length video_id = 11 \<and> set video_id \<inter> set id_terminators = {} \<and>
          (rest = [] \<or> hd rest \<in> set id_terminators)"
    using split token by blast
  then have shape: "documented_shape ?url"
    unfolding documented_shape_def using parts by blast
  have rejected: "\<not> isValidYouTubeUrl ?url"
    by (simp add: validator_eval)
  from shape rejected show ?thesis by (simp only: simp_thms)
qed

text \<open>
  Instances of both sides. What follows the eleven units is not examined, so
  \<open>feed/subscriptions\<close> and a token of 33 characters are accepted too.
\<close>

theorem isValidYouTubeUrl_shape_witness:
  "accepted_shape (str ''https://www.youtube.com/watch?v=dQw4w9WgXcQ'') \<and>
   isValidYouTubeUrl (str ''https://www.youtube.com/watch?v=dQw4w9WgXcQ'') \<and>
   \<not> accepted_shape (str ''https://www.youtube.com/watch?v=short'') \<and>
   \<not> isValidYouTubeUrl (str ''https://www.youtube.com/watch?v=short'') \<and>
   accepted_shape (str ''https://www.youtube.com/feed/subscriptions'') \<and>
   isValidYouTubeUrl (str ''https://www.youtube.com/feed/subscriptions'') \<and>
   accepted_shape (str ''https://www.youtube.com/watch?v=dQw4w9WgXcQdQw4w9WgXcQdQw4w9WgXcQ'') \<and>
   isValidYouTubeUrl (str ''https://www.youtube.com/watch?v=dQw4w9WgXcQdQw4w9WgXcQdQw4w9WgXcQ'')"
proof -
  let ?good = "str ''https://www.youtube.com/watch?v=dQw4w9WgXcQ''"
  let ?bad = "str ''https://www.youtube.com/watch?v=short''"
  let ?feed = "str ''https://www.youtube.com/feed/subscriptions''"
  let ?long = "str ''https://www.youtube.com/watch?v=dQw4w9WgXcQdQw4w9WgXcQdQw4w9WgXcQ''"
  have "str ''https://'' \<in> scheme_part" "str ''www.'' \<in> www_part"
       "str ''youtube'' \<in> host_part" "str ''com'' \<in> suffix_part"
       "str ''watch?v='' \<in> pattern_segment" "str ''dQw4w9WgXcQ'' \<in> pattern_video_id"
    by (simp_all add: scheme_part_def www_part_def host_part_def suffix_part_def
          pattern_segment_def pattern_video_id_def str_def)
  moreover have "?good = str ''https://'' @ str ''www.'' @ str ''youtube'' @ str ''.'' @ str ''com''
                   @ str ''/'' @ str ''watch?v='' @ str ''dQw4w9WgXcQ'' @ []"
    by (simp add: str_def)
  ultimately have shape: "accepted_shape ?good"
    unfolding accepted_shape_def by blast
  have rejected: "\<not> isValidYouTubeUrl ?bad"
    by (simp add: validator_eval)
  have feed: "isValidYouTubeUrl ?feed"
    by (simp add: validator_eval)
  have long: "isValidYouTubeUrl ?long"
    by (simp add: validator_eval)
  from shape rejected feed long
    isValidYouTubeUrl_shape [of ?good] isValidYouTubeUrl_shape [of ?bad]
    isValidYouTubeUrl_shape [of ?feed] isValidYouTubeUrl_shape [of ?long]
  show ?thesis by blast
qed

section \<open>Document operations: what they change and what they leave\<close>

lemma wf_example: "wf_page example_page"
  by (simp add: wf_page_def example_page_def example_heap_def new_element_def)

lemmas observe_defs =
  value_of_def class_of_def markup_of_def style_of_def children_def parent_of_def

lemma nth_update_at: "(xs[n := x]) ! m = (if m = n \<and> n < length xs then x else xs ! m)"
  by (cases "n < length xs") (auto simp: nth_list_update list_update_beyond)

lemma createElement_fst: "fst (createElement tag pg) = length (heap pg)"
  by (simp add: createElement_def)

lemma createElement_length:
  "length (heap (snd (createElement tag pg))) = Suc (length (heap pg))"
  by (simp add: createElement_def)

lemma createElement_observe:
  "children (snd (createElement tag pg)) m = children pg m"
  "parent_of (snd (createElement tag pg)) m = parent_of pg m"
  "class_of (snd (createElement tag pg)) m = class_of pg m"
  "markup_of (snd (createElement tag pg)) m = markup_of pg m"
  "value_of (snd (createElement tag pg)) m = value_of pg m"
  "style_of (snd (createElement tag pg)) m p = style_of pg m p"
  by (auto simp: createElement_def observe_defs new_element_def nth_append)

lemma createElement_fields:
  "body (snd (createElement tag pg)) = body pg"
  "qs_container (snd (createElement tag pg)) = qs_container pg"
  "timers (snd (createElement tag pg)) = timers pg"
  "clock (snd (createElement tag pg)) = clock pg"
  "clipboard (snd (createElement tag pg)) = clipboard pg"
  "selection (snd (createElement tag pg)) = selection pg"
  "console (snd (createElement tag pg)) = console pg"
  by (simp_all add: createElement_def)

lemma update_element_length: "length (heap (update_element n f pg)) = length (heap pg)"
  by (simp add: update_element_def)

lemma update_element_fields:
  "body (update_element n f pg) = body pg"
  "qs_container (update_element n f pg) = qs_container pg"
  "timers (update_element n f pg) = timers pg"
  "clock (update_element n f pg) = clock pg"
  "clipboard (update_element n f pg) = clipboard pg"
  "selection (update_element n f pg) = selection pg"
  "console (update_element n f pg) = console pg"
  by (simp_all add: update_element_def)

lemma update_element_observe:
  "children (update_element n f pg) m =
     (if m = n \<and> n < length (heap pg) then childNodes (f (heap pg ! n)) else children pg m)"
  "parent_of (update_element n f pg) m =
     (if m = n \<and> n < length (heap pg) then parentNode (f (heap pg ! n)) else parent_of pg m)"
  "class_of (update_element n f pg) m =
     (if m = n \<and> n < length (heap pg) then className (f (heap pg ! n)) else class_of pg m)"
  "markup_of (update_element n f pg) m =
     (if m = n \<and> n < length (heap pg) then innerHTML (f (heap pg ! n)) else markup_of pg m)"
  "value_of (update_element n f pg) m =
     (if m = n \<and> n < length (heap pg) then el_value (f (heap pg ! n)) else value_of pg m)"
  "style_of (update_element n f pg) m p =
     (if m = n \<and> n < length (heap pg) then style (f (heap pg ! n)) p else style_of pg m p)"
  by (auto simp: update_element_def observe_defs)

lemma set_className_observe:
  "length (heap (set_className n v pg)) = length (heap pg)"
  "children (set_className n v pg) m = children pg m"
  "parent_of (set_className n v pg) m = parent_of pg m"
  "class_of (set_className n v pg) m = (if m = n \<and> n < length (heap pg) then v else class_of pg m)"
  "markup_of (set_className n v pg) m = markup_of pg m"
  "value_of (set_className n v pg) m = value_of pg m"
  "style_of (set_className n v pg) m p = style_of pg m p"
  by (auto simp: set_className_def update_element_def observe_defs nth_update_at)

lemma set_innerHTML_observe:
  "length (heap (set_innerHTML n v pg)) = length (heap pg)"
  "children (set_innerHTML n v pg) m = children pg m"
  "parent_of (set_innerHTML n v pg) m = parent_of pg m"
  "class_of (set_innerHTML n v pg) m = class_of pg m"
  "markup_of (set_innerHTML n v pg) m = (if m = n \<and> n < length (heap pg) then v else markup_of pg m)"
  "value_of (set_innerHTML n v pg) m = value_of pg m"
  "style_of (set_innerHTML n v pg) m p = style_of pg m p"
  by (auto simp: set_innerHTML_def update_element_def observe_defs nth_update_at)

lemma set_value_observe:
  "length (heap (set_value n v pg)) = length (heap pg)"
  "children (set_value n v pg) m = children pg m"
  "parent_of (set_value n v pg) m = parent_of pg m"
  "class_of (set_value n v pg) m = class_of pg m"
  "markup_of (set_value n v pg) m = markup_of pg m"
  "value_of (set_value n v pg) m = (if m = n \<and> n < length (heap pg) then v else value_of pg m)"
  "style_of (set_value n v pg) m p = style_of pg m p"
  by (auto simp: set_value_def update_element_def observe_defs nth_update_at)

lemma set_style_observe:
  "length (heap (set_style n q v pg)) = length (heap pg)"
  "children (set_style n q v pg) m = children pg m"
  "parent_of (set_style n q v pg) m = parent_of pg m"
  "class_of (set_style n q v pg) m = class_of pg m"
  "markup_of (set_style n q v pg) m = markup_of pg m"
  "value_of (set_style n q v pg) m = value_of pg m"
  "style_of (set_style n q v pg) m p =
     (if m = n \<and> n < length (heap pg) \<and> p = q then Some v else style_of pg m p)"
  by (auto simp: set_style_def update_element_def observe_defs nth_update_at)

lemma setter_fields:
  "body (set_className n v pg) = body pg"
  "qs_container (set_className n v pg) = qs_container pg"
  "timers (set_className n v pg) = timers pg"
  "clock (set_className n v pg) = clock pg"
  "clipboard (set_className n v pg) = clipboard pg"
  "selection (set_className n v pg) = selection pg"
  "console (set_className n v pg) = console pg"
  "body (set_innerHTML n v pg) = body pg"
  "qs_container (set_innerHTML n v pg) = qs_container pg"
  "timers (set_innerHTML n v pg) = timers pg"
  "clock (set_innerHTML n v pg) = clock pg"
  "clipboard (set_innerHTML n v pg) = clipboard pg"
  "selection (set_innerHTML n v pg) = selection pg"
  "console (set_innerHTML n v pg) = console pg"
  "body (set_value n v pg) = body pg"
  "qs_container (set_value n v pg) = qs_container pg"
  "timers (set_value n v pg) = timers pg"
  "clock (set_value n v pg) = clock pg"
  "clipboard (set_value n v pg) = clipboard pg"
  "selection (set_value n v pg) = selection pg"
  "console (set_value n v pg) = console pg"
  "body (set_style n q w pg) = body pg"
  "qs_container (set_style n q w pg) = qs_container pg"
  "timers (set_style n q w pg) = timers pg"
  "clock (set_style n q w pg) = clock pg"
  "clipboard (set_style n q w pg) = clipboard pg"
  "selection (set_style n q w pg) = selection pg"
  "console (set_style n q w pg) = console pg"
  by (simp_all add: set_className_def set_innerHTML_def set_value_def set_style_def
        update_element_def)

lemma detach_orphan: "parent_of pg n = None \<Longrightarrow> detach n pg = pg"
  by (simp add: detach_def)

lemma detach_length: "length (heap (detach n pg)) = length (heap pg)"
  by (simp add: detach_def update_element_length split: option.splits)

lemma detach_fields:
  "body (detach n pg) = body pg"
  "qs_container (detach n pg) = qs_container pg"
  "timers (detach n pg) = timers pg"
  "clock (detach n pg) = clock pg"
  "clipboard (detach n pg) = clipboard pg"
  "selection (detach n pg) = selection pg"
  "console (detach n pg) = console pg"
  by (simp_all add: detach_def update_element_fields split: option.splits)

lemma detach_attributes:
  "class_of (detach n pg) m = class_of pg m"
  "markup_of (detach n pg) m = markup_of pg m"
  "value_of (detach n pg) m = value_of pg m"
  "style_of (detach n pg) m p = style_of pg m p"
  by (auto simp: detach_def update_element_def observe_defs nth_update_at split: option.splits)

lemma detach_parent: "parent_of (detach n pg) n = None"
  by (auto simp: detach_def update_element_def observe_defs nth_update_at split: option.splits)

lemma detach_children:
  "parent_of pg n = Some p \<Longrightarrow> n \<noteq> p \<Longrightarrow>
   children (detach n pg) m = (if m = p then remove1 n (children pg p) else children pg m)"
  by (auto simp: detach_def update_element_def observe_defs nth_update_at split: if_splits)

lemma insert_before_first:
  "insert_before new (case xs of [] \<Rightarrow> None | c # _ \<Rightarrow> Some c) xs = new # xs"
  by (cases xs) simp_all

lemma insertBefore_length: "length (heap (insertBefore p new r pg)) = length (heap pg)"
  by (simp add: insertBefore_def update_element_length detach_length split: option.splits)

lemma insertBefore_fields:
  "body (insertBefore p new r pg) = body pg"
  "qs_container (insertBefore p new r pg) = qs_container pg"
  "timers (insertBefore p new r pg) = timers pg"
  "clock (insertBefore p new r pg) = clock pg"
  "clipboard (insertBefore p new r pg) = clipboard pg"
  "selection (insertBefore p new r pg) = selection pg"
  "console (insertBefore p new r pg) = console pg"
  by (simp_all add: insertBefore_def update_element_fields detach_fields split: option.splits)

lemma insertBefore_attributes:
  "class_of (insertBefore p new r pg) m = class_of pg m"
  "markup_of (insertBefore p new r pg) m = markup_of pg m"
  "value_of (insertBefore p new r pg) m = value_of pg m"
  "style_of (insertBefore p new r pg) m q = style_of pg m q"
  by (auto simp: insertBefore_def detach_def update_element_def observe_defs nth_update_at
        split: option.splits)

lemma insertBefore_first_children:
  assumes "parent_of pg new = None" and "p < length (heap pg)" and "new < length (heap pg)"
    and "new \<noteq> p"
  shows "children (insertBefore p new (firstChild pg p) pg) m =
           (if m = p then new # children pg p else children pg m)"
  using assms
  by (cases "childNodes (heap pg ! p)")
     (auto simp: insertBefore_def firstChild_def detach_def update_element_def observe_defs
        nth_update_at)

lemma insertBefore_first_parent:
  assumes "parent_of pg new = None" and "p < length (heap pg)" and "new < length (heap pg)"
    and "new \<noteq> p"
  shows "parent_of (insertBefore p new (firstChild pg p) pg) m =
           (if m = new then Some p else parent_of pg m)"
  using assms
  by (cases "childNodes (heap pg ! p)")
     (auto simp: insertBefore_def firstChild_def detach_def update_element_def observe_defs
        nth_update_at)

lemma appendChild_length: "length (heap (appendChild p new pg)) = length (heap pg)"
  by (simp add: appendChild_def insertBefore_length)

lemma appendChild_fields:
  "body (appendChild p new pg) = body pg"
  "qs_container (appendChild p new pg) = qs_container pg"
  "timers (appendChild p new pg) = timers pg"
  "clock (appendChild p new pg) = clock pg"
  "clipboard (appendChild p new pg) = clipboard pg"
  "selection (appendChild p new pg) = selection pg"
  "console (appendChild p new pg) = console pg"
  by (simp_all add: appendChild_def insertBefore_fields)

lemma appendChild_attributes:
  "class_of (appendChild p new pg) m = class_of pg m"
  "markup_of (appendChild p new pg) m = markup_of pg m"
  "value_of (appendChild p new pg) m = value_of pg m"
  "style_of (appendChild p new pg) m q = style_of pg m q"
  by (simp_all add: appendChild_def insertBefore_attributes)

lemma appendChild_children:
  assumes "parent_of pg new = None" and "p < length (heap pg)" and "new < length (heap pg)"
    and "new \<noteq> p"
  shows "children (appendChild p new pg) m =
           (if m = p then children pg p @ [new] else children pg m)"
  using assms
  by (auto simp: appendChild_def insertBefore_def detach_def update_element_def observe_defs
        nth_update_at)

lemma appendChild_parent:
  assumes "parent_of pg new = None" and "p < length (heap pg)" and "new < length (heap pg)"
    and "new \<noteq> p"
  shows "parent_of (appendChild p new pg) m = (if m = new then Some p else parent_of pg m)"
  using assms
  by (auto simp: appendChild_def insertBefore_def detach_def update_element_def observe_defs
        nth_update_at)

lemma setTimeout_observe:
  "heap (setTimeout cb d pg) = heap pg"
  "children (setTimeout cb d pg) m = children pg m"
  "parent_of (setTimeout cb d pg) m = parent_of pg m"
  "class_of (setTimeout cb d pg) m = class_of pg m"
  "markup_of (setTimeout cb d pg) m = markup_of pg m"
  "value_of (setTimeout cb d pg) m = value_of pg m"
  "style_of (setTimeout cb d pg) m q = style_of pg m q"
  "body (setTimeout cb d pg) = body pg"
  "qs_container (setTimeout cb d pg) = qs_container pg"
  "timers (setTimeout cb d pg) = timers pg @ [(clock pg + d, cb)]"
  "clock (setTimeout cb d pg) = clock pg"
  "clipboard (setTimeout cb d pg) = clipboard pg"
  "selection (setTimeout cb d pg) = selection pg"
  "console (setTimeout cb d pg) = console pg"
  by (simp_all add: setTimeout_def observe_defs)


section \<open>Alert presenter\<close>

lemma str_info_not_error: "str ''info'' \<noteq> str ''error''"
  by (simp add: str_def)

lemmas showAlert_steps =
  showAlert_def Let_def split_def createElement_fst createElement_length createElement_observe
  createElement_fields set_className_observe set_innerHTML_observe setter_fields
  insertBefore_length insertBefore_fields insertBefore_attributes setTimeout_observe

lemma showAlert_length: "length (heap (showAlert message type_arg pg)) = Suc (length (heap pg))"
  by (simp add: showAlert_steps split: option.splits)

lemma showAlert_fields:
  "body (showAlert message type_arg pg) = body pg"
  "qs_container (showAlert message type_arg pg) = qs_container pg"
  "clock (showAlert message type_arg pg) = clock pg"
  "clipboard (showAlert message type_arg pg) = clipboard pg"
  "selection (showAlert message type_arg pg) = selection pg"
  "console (showAlert message type_arg pg) = console pg"
  by (simp_all add: showAlert_steps split: option.splits)

lemma showAlert_timers:
  "timers (showAlert message type_arg pg) = timers pg @ [(clock pg + 5000, FadeOut (length (heap pg)))]"
  by (simp add: showAlert_steps split: option.splits)

lemma showAlert_class:
  "class_of (showAlert message type_arg pg) m =
     (if m = length (heap pg)
      then str ''alert alert-''
             @ (if type_arg = Some (str ''error'') then str ''danger'' else str ''success'')
             @ str '' alert-dismissible fade show''
      else class_of pg m)"
  by (cases type_arg)
     (simp_all add: showAlert_steps alert_class_def str_info_not_error split: option.splits)

lemma showAlert_markup:
  "markup_of (showAlert message type_arg pg) (length (heap pg)) =
     alert_markup (case type_arg of None \<Rightarrow> str ''info'' | Some t \<Rightarrow> t) message"
  by (simp add: showAlert_steps split: option.splits)

lemma showAlert_value: "value_of (showAlert message type_arg pg) m = value_of pg m"
  by (simp add: showAlert_steps split: option.splits)

lemma showAlert_style: "style_of (showAlert message type_arg pg) m q = style_of pg m q"
  by (simp add: showAlert_steps split: option.splits)

lemma showAlert_children:
  assumes "qs_container pg = Some c" and "c < length (heap pg)"
  shows "children (showAlert message type_arg pg) m =
           (if m = c then length (heap pg) # children pg c else children pg m)"
proof -
  let ?b = "length (heap pg)"
  let ?ty = "case type_arg of None \<Rightarrow> str ''info'' | Some t \<Rightarrow> t"
  let ?pg3 = "set_innerHTML ?b (alert_markup ?ty message)
                (set_className ?b (alert_class ?ty) (snd (createElement (str ''div'') pg)))"
  have eq: "showAlert message type_arg pg =
              setTimeout (FadeOut ?b) 5000 (insertBefore c ?b (firstChild ?pg3 c) ?pg3)"
    using assms by (simp add: showAlert_def Let_def split_def createElement_fst
          createElement_fields setter_fields)
  have orphan: "parent_of ?pg3 ?b = None"
    by (simp add: set_innerHTML_observe set_className_observe createElement_observe)
       (simp add: parent_of_def)
  have len: "length (heap ?pg3) = Suc ?b"
    by (simp add: set_innerHTML_observe set_className_observe createElement_length)
  have kids: "\<And>m. children ?pg3 m = children pg m"
    by (simp add: set_innerHTML_observe set_className_observe createElement_observe)
  show ?thesis
    using assms insertBefore_first_children [OF orphan, of c m]
    by (simp only: eq setTimeout_observe) (simp add: len kids)
qed


lemma wf_page_container: "wf_page pg \<Longrightarrow> qs_container pg = Some c \<Longrightarrow> c < length (heap pg)"
  by (simp add: wf_page_def)

lemma example_page_facts:
  "length (heap example_page) = 11"
  "qs_container example_page = Some 2"
  "body example_page = 1"
  "children example_page 2 = [3, 4, 5, 6, 9]"
  "children example_page 1 = [2]"
  "clock example_page = 0"
  "timers example_page = []"
  by (simp_all add: example_page_def example_heap_def children_def new_element_def)

text \<open>
  Claim C7. For every message and severity, the banner \<open>showAlert\<close> builds (the node the
  call allocates) has the style class \<open>alert-danger\<close> when the severity is \<open>error\<close> and
  \<open>alert-success\<close> for any other severity, the default included, and it becomes the
  first child of the first \<open>.container\<close> element when there is one.
\<close>

theorem showAlert_banner:
  assumes "wf_page pg"
  shows "(type_arg = Some (str ''error'') \<longrightarrow>
            class_of (showAlert message type_arg pg) (length (heap pg)) =
              str ''alert alert-danger alert-dismissible fade show'') \<and>
         (type_arg \<noteq> Some (str ''error'') \<longrightarrow>
            class_of (showAlert message type_arg pg) (length (heap pg)) =
              str ''alert alert-success alert-dismissible fade show'') \<and>
         (\<forall>c. qs_container pg = Some c \<longrightarrow>
            children (showAlert message type_arg pg) c = length (heap pg) # children pg c)"
  using assms
  by (auto simp: showAlert_class showAlert_children wf_page_container str_def)

theorem showAlert_banner_witness:
  "wf_page example_page \<and>
   class_of (showAlert (str ''Please enter a YouTube URL'') (Some (str ''error'')) example_page) 11 =
     str ''alert alert-danger alert-dismissible fade show'' \<and>
   class_of (showAlert (str ''URL copied to clipboard!'') None example_page) 11 =
     str ''alert alert-success alert-dismissible fade show'' \<and>
   qs_container example_page = Some 2 \<and>
   children (showAlert (str ''Please enter a YouTube URL'') (Some (str ''error'')) example_page) 2 =
     [11, 3, 4, 5, 6, 9]"
  using showAlert_banner [OF wf_example, of "Some (str ''error'')" "str ''Please enter a YouTube URL''"]
    showAlert_banner [OF wf_example, of None "str ''URL copied to clipboard!''"]
  by (simp add: example_page_facts wf_example)


section \<open>Submit listeners\<close>

lemma trim_all_whitespace:
  assumes "\<forall>c\<in>set s. is_whitespace c"
  shows "trim s = []"
proof -
  have front: "dropWhile is_whitespace s = []"
    using assms by (simp only: dropWhile_eq_Nil_conv)
  show ?thesis unfolding trim_def front by simp
qed

lemma trim_empty_iff: "trim s = [] \<longleftrightarrow> (\<forall>c\<in>set s. is_whitespace c)"
proof
  assume "trim s = []"
  then have "dropWhile is_whitespace (rev (dropWhile is_whitespace s)) = []"
    by (simp add: trim_def)
  then have "\<forall>c\<in>set (dropWhile is_whitespace s). is_whitespace c"
    by (simp add: dropWhile_eq_Nil_conv)
  then have "dropWhile is_whitespace s = []"
    by (metis dropWhile_eq_Nil_conv dropWhile_idem)
  then show "\<forall>c\<in>set s. is_whitespace c"
    by (simp add: dropWhile_eq_Nil_conv)
qed (rule trim_all_whitespace)

lemma trim_surrounding:
  assumes "\<forall>c\<in>set ws1. is_whitespace c" and "\<forall>c\<in>set ws2. is_whitespace c"
  shows "trim (ws1 @ u @ ws2) = trim u"
proof (cases "\<forall>c\<in>set u. is_whitespace c")
  case True
  then have "\<forall>c\<in>set (ws1 @ u @ ws2). is_whitespace c" using assms by auto
  then show ?thesis using True by (simp only: trim_all_whitespace)
next
  case False
  then obtain x where x: "x \<in> set u" "\<not> is_whitespace x" by blast
  have front: "dropWhile is_whitespace (ws1 @ u @ ws2) = dropWhile is_whitespace u @ ws2"
  proof -
    have "dropWhile is_whitespace (ws1 @ u @ ws2) = dropWhile is_whitespace (u @ ws2)"
      by (rule dropWhile_append2) (use assms(1) in auto)
    also have "\<dots> = dropWhile is_whitespace u @ ws2"
      using x by (rule dropWhile_append1)
    finally show ?thesis .
  qed
  have "rev (dropWhile is_whitespace u @ ws2) = rev ws2 @ rev (dropWhile is_whitespace u)"
    by simp
  moreover have "dropWhile is_whitespace (rev ws2 @ rev (dropWhile is_whitespace u))
                 = dropWhile is_whitespace (rev (dropWhile is_whitespace u))"
    by (rule dropWhile_append2) (use assms(2) in auto)
  ultimately show ?thesis by (simp add: trim_def front)
qed

lemma preventDefault_prevents: "defaultPrevented (preventDefault e)"
  by (simp add: preventDefault_def)

lemma analyze_submit_blank:
  "trim (value_of pg urlInput) = [] \<Longrightarrow>
   analyze_submit urlInput e pg =
     (preventDefault e, showAlert (str ''Please enter a YouTube URL'') (Some (str ''error'')) pg)"
  by (simp add: analyze_submit_def)

lemma analyze_submit_invalid:
  "trim (value_of pg urlInput) \<noteq> [] \<Longrightarrow> \<not> isValidYouTubeUrl (trim (value_of pg urlInput)) \<Longrightarrow>
   analyze_submit urlInput e pg =
     (preventDefault e,
      showAlert (str ''Please enter a valid YouTube URL'') (Some (str ''error'')) pg)"
  by (simp add: analyze_submit_def)

lemma analyze_submit_valid:
  "trim (value_of pg urlInput) \<noteq> [] \<Longrightarrow> isValidYouTubeUrl (trim (value_of pg urlInput)) \<Longrightarrow>
   analyze_submit urlInput e pg = (e, pg)"
  by (simp add: analyze_submit_def)

lemma valid_not_empty: "isValidYouTubeUrl s \<Longrightarrow> s \<noteq> []"
  by (auto simp: isValidYouTubeUrl_iff_accepted accepted_shape_def pattern_video_id_def)

lemma value_of_example:
  "value_of (set_value 7 v example_page) 7 = v"
  by (simp add: set_value_observe example_page_facts)

text \<open>
  Claim C10. The analyze listener trims the value of the URL field before both checks.
  A value of white space only is stopped with the missing-URL alert, not the invalid-URL
  one; for every other value the validator sees the trimmed string; and white space
  around a value never gets it rejected when the value without it is valid.
\<close>

theorem analyze_submit_trims:
  "((\<forall>c\<in>set (value_of pg urlInput). is_whitespace c) \<longrightarrow>
      analyze_submit urlInput e pg =
        (preventDefault e,
         showAlert (str ''Please enter a YouTube URL'') (Some (str ''error'')) pg)) \<and>
   (\<not> (\<forall>c\<in>set (value_of pg urlInput). is_whitespace c) \<longrightarrow>
      analyze_submit urlInput e pg =
        (if isValidYouTubeUrl (trim (value_of pg urlInput)) then (e, pg)
         else (preventDefault e,
               showAlert (str ''Please enter a valid YouTube URL'') (Some (str ''error'')) pg))) \<and>
   (\<forall>ws1 u ws2.
      value_of pg urlInput = ws1 @ u @ ws2 \<and>
      (\<forall>c\<in>set ws1. is_whitespace c) \<and> (\<forall>c\<in>set ws2. is_whitespace c) \<and>
      isValidYouTubeUrl (trim u) \<longrightarrow>
      analyze_submit urlInput e pg = (e, pg))"
proof (intro conjI impI allI)
  assume "\<forall>c\<in>set (value_of pg urlInput). is_whitespace c"
  then show "analyze_submit urlInput e pg =
        (preventDefault e,
         showAlert (str ''Please enter a YouTube URL'') (Some (str ''error'')) pg)"
    by (simp add: analyze_submit_blank trim_all_whitespace)
next
  assume "\<not> (\<forall>c\<in>set (value_of pg urlInput). is_whitespace c)"
  then have "trim (value_of pg urlInput) \<noteq> []"
    by (simp add: trim_empty_iff)
  then show "analyze_submit urlInput e pg =
        (if isValidYouTubeUrl (trim (value_of pg urlInput)) then (e, pg)
         else (preventDefault e,
               showAlert (str ''Please enter a valid YouTube URL'') (Some (str ''error'')) pg))"
    by (simp add: analyze_submit_invalid analyze_submit_valid)
next
  fix ws1 u ws2
  assume a: "value_of pg urlInput = ws1 @ u @ ws2 \<and>
      (\<forall>c\<in>set ws1. is_whitespace c) \<and> (\<forall>c\<in>set ws2. is_whitespace c) \<and>
      isValidYouTubeUrl (trim u)"
  then have "trim (value_of pg urlInput) = trim u"
    by (simp add: trim_surrounding)
  then show "analyze_submit urlInput e pg = (e, pg)"
    using a by (simp add: analyze_submit_valid valid_not_empty)
qed


lemmas trim_eval = trim_def is_whitespace_def js_whitespace_def str_def

theorem analyze_submit_trims_witness:
  "analyze_submit 7 \<lparr>defaultPrevented = False\<rparr> (set_value 7 (str ''   '') example_page) =
     (\<lparr>defaultPrevented = True\<rparr>,
      showAlert (str ''Please enter a YouTube URL'') (Some (str ''error''))
        (set_value 7 (str ''   '') example_page)) \<and>
   analyze_submit 7 \<lparr>defaultPrevented = False\<rparr> (set_value 7 (str ''not a url'') example_page) =
     (\<lparr>defaultPrevented = True\<rparr>,
      showAlert (str ''Please enter a valid YouTube URL'') (Some (str ''error''))
        (set_value 7 (str ''not a url'') example_page)) \<and>
   analyze_submit 7 \<lparr>defaultPrevented = False\<rparr>
       (set_value 7 (str ''  https://youtu.be/dQw4w9WgXcQ '') example_page) =
     (\<lparr>defaultPrevented = False\<rparr>, set_value 7 (str ''  https://youtu.be/dQw4w9WgXcQ '') example_page)"
proof -
  let ?e = "\<lparr>defaultPrevented = False\<rparr>"
  have blank: "\<forall>c\<in>set (str ''   ''). is_whitespace c"
    by (simp add: is_whitespace_def js_whitespace_def str_def)
  have not_blank: "\<not> (\<forall>c\<in>set (str ''not a url''). is_whitespace c)"
    by (simp add: is_whitespace_def js_whitespace_def str_def)
  have trimmed: "trim (str ''not a url'') = str ''not a url''"
    by (simp add: trim_eval)
  have invalid: "\<not> isValidYouTubeUrl (str ''not a url'')"
    by (simp add: validator_eval)
  have split: "str ''  https://youtu.be/dQw4w9WgXcQ '' =
                 str ''  '' @ str ''https://youtu.be/dQw4w9WgXcQ'' @ str '' ''"
    by (simp add: str_def)
  have spaces: "\<forall>c\<in>set (str ''  ''). is_whitespace c" "\<forall>c\<in>set (str '' ''). is_whitespace c"
    by (simp_all add: is_whitespace_def js_whitespace_def str_def)
  have core: "trim (str ''https://youtu.be/dQw4w9WgXcQ'') = str ''https://youtu.be/dQw4w9WgXcQ''"
    by (simp add: trim_eval)
  have valid: "isValidYouTubeUrl (str ''https://youtu.be/dQw4w9WgXcQ'')"
    by (simp add: validator_eval)
  have prevented: "preventDefault ?e = \<lparr>defaultPrevented = True\<rparr>"
    by (simp add: preventDefault_def)
  from analyze_submit_trims [of "set_value 7 (str ''   '') example_page" 7 ?e] blank
  have one: "analyze_submit 7 ?e (set_value 7 (str ''   '') example_page) =
     (\<lparr>defaultPrevented = True\<rparr>,
      showAlert (str ''Please enter a YouTube URL'') (Some (str ''error''))
        (set_value 7 (str ''   '') example_page))"
    by (simp only: value_of_example prevented simp_thms)
  from analyze_submit_trims [of "set_value 7 (str ''not a url'') example_page" 7 ?e] not_blank
  have two: "analyze_submit 7 ?e (set_value 7 (str ''not a url'') example_page) =
     (\<lparr>defaultPrevented = True\<rparr>,
      showAlert (str ''Please enter a valid YouTube URL'') (Some (str ''error''))
        (set_value 7 (str ''not a url'') example_page))"
    by (simp only: value_of_example prevented trimmed invalid if_False simp_thms)
  from analyze_submit_trims
         [of "set_value 7 (str ''  https://youtu.be/dQw4w9WgXcQ '') example_page" 7 ?e]
  have "value_of (set_value 7 (str ''  https://youtu.be/dQw4w9WgXcQ '') example_page) 7 =
          str ''  '' @ str ''https://youtu.be/dQw4w9WgXcQ'' @ str '' '' \<and>
        (\<forall>c\<in>set (str ''  ''). is_whitespace c) \<and> (\<forall>c\<in>set (str '' ''). is_whitespace c) \<and>
        isValidYouTubeUrl (trim (str ''https://youtu.be/dQw4w9WgXcQ'')) \<longrightarrow>
        analyze_submit 7 ?e (set_value 7 (str ''  https://youtu.be/dQw4w9WgXcQ '') example_page) =
          (?e, set_value 7 (str ''  https://youtu.be/dQw4w9WgXcQ '') example_page)"
    by blast
  then have three: "analyze_submit 7 ?e
       (set_value 7 (str ''  https://youtu.be/dQw4w9WgXcQ '') example_page) =
     (?e, set_value 7 (str ''  https://youtu.be/dQw4w9WgXcQ '') example_page)"
    using spaces valid by (simp only: value_of_example core split simp_thms)
  from one two three show ?thesis by (simp only: simp_thms)
qed


lemma download_submit_none:
  "qs_quality_checked pg = None \<Longrightarrow>
   download_submit e pg =
     (preventDefault e, showAlert (str ''Please select a quality option'') (Some (str ''error'')) pg)"
  by (simp add: download_submit_def)

lemma download_submit_some: "qs_quality_checked pg \<noteq> None \<Longrightarrow> download_submit e pg = (e, pg)"
  by (cases "qs_quality_checked pg") (simp_all add: download_submit_def)

text \<open>
  Claim C4, as the script has it. The analyze listener looks at the value of the URL
  field with the white space around it removed: if that is empty or fails
  \<open>isValidYouTubeUrl\<close>, the listener prevents the default submission and shows exactly one
  alert; if it is not empty and passes, the listener shows no alert and leaves the
  submission alone. The download listener prevents the submission and shows exactly one
  alert when no quality radio is checked, and does neither when one is.
\<close>

theorem submit_validation:
  "(trim (value_of pg urlInput) = [] \<or> \<not> isValidYouTubeUrl (trim (value_of pg urlInput)) \<longrightarrow>
      (\<exists>message. analyze_submit urlInput e pg =
         (preventDefault e, showAlert message (Some (str ''error'')) pg))) \<and>
   (trim (value_of pg urlInput) \<noteq> [] \<and> isValidYouTubeUrl (trim (value_of pg urlInput)) \<longrightarrow>
      analyze_submit urlInput e pg = (e, pg)) \<and>
   (qs_quality_checked pg = None \<longrightarrow>
      download_submit e pg =
        (preventDefault e,
         showAlert (str ''Please select a quality option'') (Some (str ''error'')) pg)) \<and>
   (qs_quality_checked pg \<noteq> None \<longrightarrow> download_submit e pg = (e, pg)) \<and>
   defaultPrevented (preventDefault e)"
proof (intro conjI impI)
  assume "trim (value_of pg urlInput) = [] \<or> \<not> isValidYouTubeUrl (trim (value_of pg urlInput))"
  then show "\<exists>message. analyze_submit urlInput e pg =
         (preventDefault e, showAlert message (Some (str ''error'')) pg)"
    by (cases "trim (value_of pg urlInput) = []")
       (auto simp: analyze_submit_blank analyze_submit_invalid)
qed (simp_all add: analyze_submit_valid download_submit_none download_submit_some
       preventDefault_prevents)

text \<open>
  The claim as worded speaks of the value of the field itself. A value with a leading
  space fails \<open>isValidYouTubeUrl\<close>, and the listener lets the submission through
  without an alert, since the trimmed value is valid.
\<close>

theorem submit_validation_counterexample:
  "\<not> isValidYouTubeUrl (str '' youtube.com/abcdefghijk'') \<and>
   analyze_submit 7 \<lparr>defaultPrevented = False\<rparr>
       (set_value 7 (str '' youtube.com/abcdefghijk'') example_page) =
     (\<lparr>defaultPrevented = False\<rparr>, set_value 7 (str '' youtube.com/abcdefghijk'') example_page)"
proof -
  have raw: "\<not> isValidYouTubeUrl (str '' youtube.com/abcdefghijk'')"
    by (simp add: validator_eval)
  have trimmed: "trim (str '' youtube.com/abcdefghijk'') = str ''youtube.com/abcdefghijk''"
    by (simp add: trim_eval)
  have valid: "isValidYouTubeUrl (str ''youtube.com/abcdefghijk'')"
    by (simp add: validator_eval)
  have "analyze_submit 7 \<lparr>defaultPrevented = False\<rparr>
       (set_value 7 (str '' youtube.com/abcdefghijk'') example_page) =
     (\<lparr>defaultPrevented = False\<rparr>, set_value 7 (str '' youtube.com/abcdefghijk'') example_page)"
    by (rule analyze_submit_valid)
       (simp_all only: value_of_example trimmed valid, simp add: str_def)
  with raw show ?thesis by (simp only: simp_thms)
qed

theorem submit_validation_witness:
  "analyze_submit 7 \<lparr>defaultPrevented = False\<rparr> example_page =
     (\<lparr>defaultPrevented = True\<rparr>,
      showAlert (str ''Please enter a YouTube URL'') (Some (str ''error'')) example_page) \<and>
   analyze_submit 7 \<lparr>defaultPrevented = False\<rparr>
       (set_value 7 (str ''https://www.youtube.com/watch?v=dQw4w9WgXcQ'') example_page) =
     (\<lparr>defaultPrevented = False\<rparr>,
      set_value 7 (str ''https://www.youtube.com/watch?v=dQw4w9WgXcQ'') example_page) \<and>
   download_submit \<lparr>defaultPrevented = False\<rparr> example_page =
     (\<lparr>defaultPrevented = True\<rparr>,
      showAlert (str ''Please select a quality option'') (Some (str ''error'')) example_page) \<and>
   download_submit \<lparr>defaultPrevented = False\<rparr> (example_page\<lparr>qs_quality_checked := Some 10\<rparr>) =
     (\<lparr>defaultPrevented = False\<rparr>, example_page\<lparr>qs_quality_checked := Some 10\<rparr>)"
proof -
  let ?e = "\<lparr>defaultPrevented = False\<rparr>"
  let ?good = "str ''https://www.youtube.com/watch?v=dQw4w9WgXcQ''"
  have prevented: "preventDefault ?e = \<lparr>defaultPrevented = True\<rparr>"
    by (simp add: preventDefault_def)
  have empty: "trim (value_of example_page 7) = []"
    by (simp add: value_of_def example_page_def example_heap_def new_element_def trim_def)
  have trimmed: "trim ?good = ?good"
    by (simp add: trim_eval)
  have valid: "isValidYouTubeUrl ?good"
    by (simp add: validator_eval)
  have nonempty: "?good \<noteq> []"
    by (simp add: str_def)
  have none_checked: "qs_quality_checked example_page = None"
    by (simp add: example_page_def)
  have some_checked: "qs_quality_checked (example_page\<lparr>qs_quality_checked := Some 10\<rparr>) \<noteq> None"
    by simp
  have one: "analyze_submit 7 ?e example_page =
     (\<lparr>defaultPrevented = True\<rparr>,
      showAlert (str ''Please enter a YouTube URL'') (Some (str ''error'')) example_page)"
    using submit_validation [of example_page 7 ?e] empty
    by (auto simp: prevented analyze_submit_blank)
  have two: "analyze_submit 7 ?e (set_value 7 ?good example_page) = (?e, set_value 7 ?good example_page)"
    using submit_validation [of "set_value 7 ?good example_page" 7 ?e] trimmed valid nonempty
    by (simp only: value_of_example simp_thms)
  have three: "download_submit ?e example_page =
     (\<lparr>defaultPrevented = True\<rparr>,
      showAlert (str ''Please select a quality option'') (Some (str ''error'')) example_page)"
    using submit_validation [of example_page 7 ?e] none_checked
    by (simp only: prevented simp_thms)
  have four: "download_submit ?e (example_page\<lparr>qs_quality_checked := Some 10\<rparr>) =
     (?e, example_page\<lparr>qs_quality_checked := Some 10\<rparr>)"
    using submit_validation [of "example_page\<lparr>qs_quality_checked := Some 10\<rparr>" 7 ?e] some_checked
    by (simp only: simp_thms)
  from one two three four show ?thesis by (simp only: simp_thms)
qed


section \<open>Clipboard helper\<close>

lemma wf_page_body: "wf_page pg \<Longrightarrow> body pg < length (heap pg)"
  by (simp add: wf_page_def)

lemma wf_page_children:
  assumes "wf_page pg" and "n \<in> set (children pg m)"
  shows "n < length (heap pg)"
proof (cases "m < length (heap pg)")
  case True
  then have "heap pg ! m \<in> set (heap pg)" by simp
  then have "list_all (\<lambda>c. c < length (heap pg)) (childNodes (heap pg ! m))"
    using assms(1) by (simp add: wf_page_def list_all_iff)
  then show ?thesis using assms(2) True by (simp add: children_def list_all_iff)
next
  case False
  then show ?thesis using assms(2) by (simp add: children_def)
qed

lemma parent_of_beyond: "length (heap pg) \<le> n \<Longrightarrow> parent_of pg n = None"
  by (simp add: parent_of_def)

lemma showAlert_parent:
  assumes "case qs_container pg of None \<Rightarrow> True | Some c \<Rightarrow> c < length (heap pg)"
  shows "parent_of (showAlert message type_arg pg) m =
           (if m = length (heap pg) then qs_container pg else parent_of pg m)"
proof (cases "qs_container pg")
  case None
  then show ?thesis
    by (simp add: showAlert_steps parent_of_beyond)
next
  case (Some c)
  let ?b = "length (heap pg)"
  let ?ty = "case type_arg of None \<Rightarrow> str ''info'' | Some t \<Rightarrow> t"
  let ?pg3 = "set_innerHTML ?b (alert_markup ?ty message)
                (set_className ?b (alert_class ?ty) (snd (createElement (str ''div'') pg)))"
  have c: "c < ?b" using assms Some by simp
  have eq: "showAlert message type_arg pg =
              setTimeout (FadeOut ?b) 5000 (insertBefore c ?b (firstChild ?pg3 c) ?pg3)"
    using Some by (simp add: showAlert_def Let_def split_def createElement_fst
          createElement_fields setter_fields)
  have orphan: "parent_of ?pg3 ?b = None"
    by (simp add: set_innerHTML_observe set_className_observe createElement_observe
          parent_of_beyond)
  have len: "length (heap ?pg3) = Suc ?b"
    by (simp add: set_innerHTML_observe set_className_observe createElement_length)
  have parents: "\<And>m. parent_of ?pg3 m = parent_of pg m"
    by (simp add: set_innerHTML_observe set_className_observe createElement_observe)
  show ?thesis
    using c Some insertBefore_first_parent [OF orphan, of c m]
    by (simp only: eq setTimeout_observe) (simp add: len parents)
qed

lemma showAlert_children_any:
  assumes "case qs_container pg of None \<Rightarrow> True | Some c \<Rightarrow> c < length (heap pg)"
  shows "children (showAlert message type_arg pg) m =
           (if qs_container pg = Some m then length (heap pg) # children pg m else children pg m)"
proof (cases "qs_container pg")
  case None
  then show ?thesis by (simp add: showAlert_steps)
next
  case (Some c)
  then show ?thesis using assms showAlert_children [of pg c message type_arg m] by auto
qed

lemma removeChild_child:
  assumes "parent_of pg n = Some p" and "n \<noteq> p"
  shows "removeChild p n pg = Inr (detach n pg)"
    and "children (detach n pg) p = remove1 n (children pg p)"
    and "parent_of (detach n pg) n = None"
    and "length (heap (detach n pg)) = length (heap pg)"
  using assms by (simp_all add: removeChild_def detach_children detach_parent detach_length)

lemma finish_copy:
  assumes len: "length (heap q) = Suc t"
    and body: "body q < t"
    and parent: "parent_of q t = Some (body q)"
    and kids: "children q (body q) = old @ [t]"
    and fresh: "t \<notin> set old"
    and container: "case qs_container q of None \<Rightarrow> True | Some c \<Rightarrow> c < t"
  shows "removeChild (body (showAlert m ty q)) t (showAlert m ty q) =
           Inr (detach t (showAlert m ty q)) \<and>
         children (detach t (showAlert m ty q)) (body q) =
           (if qs_container q = Some (body q) then Suc t # old else old) \<and>
         parent_of (detach t (showAlert m ty q)) t = None \<and>
         length (heap (detach t (showAlert m ty q))) = Suc (Suc t)"
proof -
  let ?s = "showAlert m ty q"
  have c: "case qs_container q of None \<Rightarrow> True | Some c \<Rightarrow> c < length (heap q)"
    using container len by (cases "qs_container q") auto
  have p: "parent_of ?s t = Some (body q)"
    using parent len by (simp add: showAlert_parent [OF c])
  have k: "children ?s (body q) =
             (if qs_container q = Some (body q) then Suc t # old @ [t] else old @ [t])"
    using kids len by (simp add: showAlert_children_any [OF c])
  have ne: "t \<noteq> body q" using body by simp
  have "remove1 t (children ?s (body q)) =
          (if qs_container q = Some (body q) then Suc t # old else old)"
    using fresh by (simp add: k remove1_append)
  then show ?thesis
    using removeChild_child [OF p ne] by (simp add: showAlert_fields showAlert_length len)
qed

lemma observe_heap_cong:
  assumes "heap q = heap q'"
  shows "children q = children q'" and "parent_of q = parent_of q'"
    and "value_of q = value_of q'" and "class_of q = class_of q'"
    and "markup_of q = markup_of q'"
  using assms by (auto simp: observe_defs fun_eq_iff)


lemma before_copy_facts:
  assumes "wf_page pg"
  shows "length (heap (before_copy text pg)) = Suc (length (heap pg))"
    and "body (before_copy text pg) = body pg"
    and "qs_container (before_copy text pg) = qs_container pg"
    and "clipboard (before_copy text pg) = clipboard pg"
    and "console (before_copy text pg) = console pg"
    and "selection (before_copy text pg) = text"
    and "children (before_copy text pg) (body pg) = children pg (body pg) @ [length (heap pg)]"
    and "parent_of (before_copy text pg) (length (heap pg)) = Some (body pg)"
proof -
  let ?t = "length (heap pg)"
  let ?pg5 = "set_style ?t StylePosition (Text (str ''fixed''))
                (set_style ?t StyleLeft (Text (str ''0''))
                  (set_style ?t StyleTop (Text (str ''0''))
                    (set_value ?t text (snd (createElement (str ''textarea'') pg)))))"
  let ?pg6 = "appendChild (body pg) ?t ?pg5"
  have body: "body pg < ?t" using assms by (rule wf_page_body)
  have len5: "length (heap ?pg5) = Suc ?t"
    by (simp add: set_style_observe set_value_observe createElement_length)
  have fields5: "body ?pg5 = body pg" "qs_container ?pg5 = qs_container pg"
    "clipboard ?pg5 = clipboard pg" "console ?pg5 = console pg"
    by (simp_all add: setter_fields createElement_fields)
  have kids5: "\<And>m. children ?pg5 m = children pg m"
    by (simp add: set_style_observe set_value_observe createElement_observe)
  have value5: "value_of ?pg5 ?t = text"
    by (simp add: set_style_observe set_value_observe createElement_length)
  have orphan5: "parent_of ?pg5 ?t = None"
    by (simp add: set_style_observe set_value_observe createElement_observe parent_of_beyond)
  have body5: "body pg < length (heap ?pg5)" and t5: "?t < length (heap ?pg5)"
    and ne: "?t \<noteq> body pg"
    using body len5 by simp_all
  have eq: "before_copy text pg = select ?t (focus ?t ?pg6)"
    unfolding before_copy_def Let_def split_def createElement_fst fields5 by (rule refl)
  have "value_of (focus ?t ?pg6) = value_of ?pg6"
    by (rule observe_heap_cong) (simp add: focus_def)
  then have value6: "value_of (focus ?t ?pg6) ?t = text"
    using value5 by (simp add: appendChild_attributes)
  show "length (heap (before_copy text pg)) = Suc (length (heap pg))"
    by (simp add: eq select_def focus_def appendChild_length len5)
  show "body (before_copy text pg) = body pg"
    by (simp add: eq select_def focus_def appendChild_fields fields5)
  show "qs_container (before_copy text pg) = qs_container pg"
    by (simp add: eq select_def focus_def appendChild_fields fields5)
  show "clipboard (before_copy text pg) = clipboard pg"
    by (simp add: eq select_def focus_def appendChild_fields fields5)
  show "console (before_copy text pg) = console pg"
    by (simp add: eq select_def focus_def appendChild_fields fields5)
  show "selection (before_copy text pg) = text"
    using value6 by (simp add: eq select_def)
  have same: "heap (before_copy text pg) = heap ?pg6"
    by (simp add: eq select_def focus_def)
  have "children (before_copy text pg) = children ?pg6"
    "parent_of (before_copy text pg) = parent_of ?pg6"
    using same by (rule observe_heap_cong)+
  then show "children (before_copy text pg) (body pg) = children pg (body pg) @ [length (heap pg)]"
    and "parent_of (before_copy text pg) (length (heap pg)) = Some (body pg)"
    by (simp_all add: appendChild_children [OF orphan5 body5 t5 ne]
          appendChild_parent [OF orphan5 body5 t5 ne] kids5)
qed

lemma fallbackCopy_unfold:
  "fallbackCopyTextToClipboard env text pg =
     (let pg8 = before_copy text pg;
          pg9 = (case execCommand env pg8 of
                   Inr copied \<Rightarrow>
                     showAlert (str ''URL copied to clipboard!'') (Some (str ''success'')) copied
                 | Inl err \<Rightarrow>
                     showAlert (str ''Failed to copy URL'') (Some (str ''error''))
                       (console_error (str ''Fallback: Oops, unable to copy'') pg8))
      in removeChild (body pg9) (length (heap pg)) pg9)"
  unfolding fallbackCopyTextToClipboard_def before_copy_def Let_def split_def createElement_fst
  by (rule refl)

lemma str_success_not_error: "str ''success'' \<noteq> str ''error''"
  by (simp add: str_def)

text \<open>What the fallback leaves behind, for each outcome of the copy command.\<close>

lemma fallbackCopy_result:
  assumes "wf_page pg"
  shows "\<exists>pg'. fallbackCopyTextToClipboard env text pg = Inr pg' \<and>
           children pg' (body pg) =
             (if qs_container pg = Some (body pg)
              then Suc (length (heap pg)) # children pg (body pg)
              else children pg (body pg)) \<and>
           parent_of pg' (length (heap pg)) = None \<and>
           length (heap pg') = length (heap pg) + 2 \<and>
           class_of pg' (Suc (length (heap pg))) =
             (if execCommand_copy env = ExecThrows
              then str ''alert alert-danger alert-dismissible fade show''
              else str ''alert alert-success alert-dismissible fade show'') \<and>
           markup_of pg' (Suc (length (heap pg))) =
             (if execCommand_copy env = ExecThrows
              then alert_markup (str ''error'') (str ''Failed to copy URL'')
              else alert_markup (str ''success'') (str ''URL copied to clipboard!'')) \<and>
           clipboard pg' =
             (if execCommand_copy env = ExecReturns True then text else clipboard pg) \<and>
           console pg' =
             (if execCommand_copy env = ExecThrows
              then console pg @ [str ''Fallback: Oops, unable to copy''] else console pg)"
proof -
  let ?t = "length (heap pg)"
  let ?old = "children pg (body pg)"
  let ?pg8 = "before_copy text pg"
  note facts = before_copy_facts [OF assms, of "text"]
  have body: "body pg < ?t" using assms by (rule wf_page_body)
  have fresh: "?t \<notin> set ?old" using wf_page_children [OF assms, of ?t "body pg"] by auto
  have container: "case qs_container pg of None \<Rightarrow> True | Some c \<Rightarrow> c < ?t"
    using assms by (simp add: wf_page_def)
  have ready: "removeChild (body (showAlert m ty q)) ?t (showAlert m ty q) =
                 Inr (detach ?t (showAlert m ty q)) \<and>
               children (detach ?t (showAlert m ty q)) (body pg) =
                 (if qs_container pg = Some (body pg) then Suc ?t # ?old else ?old) \<and>
               parent_of (detach ?t (showAlert m ty q)) ?t = None \<and>
               length (heap (detach ?t (showAlert m ty q))) = Suc (Suc ?t)"
    if h: "heap q = heap ?pg8" and b: "body q = body pg" and c: "qs_container q = qs_container pg"
    for q :: page and m ty
  proof -
    have "length (heap q) = Suc ?t" using h facts(1) by simp
    moreover have "body q < ?t" using b body by simp
    moreover have "parent_of q ?t = Some (body q)"
      using observe_heap_cong(2) [OF h] facts(8) b by simp
    moreover have "children q (body q) = ?old @ [?t]"
      using observe_heap_cong(1) [OF h] facts(7) b by simp
    moreover have "case qs_container q of None \<Rightarrow> True | Some c \<Rightarrow> c < ?t"
      using c container by simp
    ultimately show ?thesis
      using finish_copy [of q ?t ?old m ty] fresh b c by simp
  qed
  have shown: "class_of (detach ?t (showAlert m ty q)) (Suc ?t) =
                 (if ty = Some (str ''error'')
                  then str ''alert alert-danger alert-dismissible fade show''
                  else str ''alert alert-success alert-dismissible fade show'') \<and>
               markup_of (detach ?t (showAlert m ty q)) (Suc ?t) =
                 alert_markup (case ty of None \<Rightarrow> str ''info'' | Some t \<Rightarrow> t) m \<and>
               clipboard (detach ?t (showAlert m ty q)) = clipboard q \<and>
               console (detach ?t (showAlert m ty q)) = console q"
    if h: "heap q = heap ?pg8" for q :: page and m ty
  proof -
    have len: "length (heap q) = Suc ?t" using h facts(1) by simp
    show ?thesis
      using showAlert_class [of m ty q "Suc ?t"] showAlert_markup [of m ty q]
      by (simp add: detach_attributes detach_fields showAlert_fields len str_def)
  qed
  show ?thesis
  proof (cases "execCommand_copy env")
    case (ExecReturns ok)
    let ?q = "if ok then ?pg8\<lparr>clipboard := text\<rparr> else ?pg8"
    have q: "heap ?q = heap ?pg8" "body ?q = body pg" "qs_container ?q = qs_container pg"
      using facts(2,3) by simp_all
    have exec: "execCommand env ?pg8 = Inr ?q"
      using ExecReturns facts(6) by (cases ok) (simp_all add: execCommand_def)
    have run: "fallbackCopyTextToClipboard env text pg =
                 removeChild (body (showAlert (str ''URL copied to clipboard!'') (Some (str ''success'')) ?q))
                   ?t (showAlert (str ''URL copied to clipboard!'') (Some (str ''success'')) ?q)"
      by (simp only: fallbackCopy_unfold Let_def exec sum.case)
    have clip: "clipboard ?q = (if ok then text else clipboard pg)"
      using facts(4) by simp
    have cons: "console ?q = console pg"
      using facts(5) by simp
    from ready [OF q, of "str ''URL copied to clipboard!''" "Some (str ''success'')"]
      shown [OF q(1), of "str ''URL copied to clipboard!''" "Some (str ''success'')"]
    show ?thesis
      by (simp add: run ExecReturns clip cons str_success_not_error)
  next
    case ExecThrows
    let ?q = "console_error (str ''Fallback: Oops, unable to copy'') ?pg8"
    have q: "heap ?q = heap ?pg8" "body ?q = body pg" "qs_container ?q = qs_container pg"
      using facts(2,3) by (simp_all add: console_error_def)
    have exec: "execCommand env ?pg8 = Inl CopyError"
      using ExecThrows by (simp add: execCommand_def)
    have run: "fallbackCopyTextToClipboard env text pg =
                 removeChild (body (showAlert (str ''Failed to copy URL'') (Some (str ''error'')) ?q))
                   ?t (showAlert (str ''Failed to copy URL'') (Some (str ''error'')) ?q)"
      by (simp only: fallbackCopy_unfold Let_def exec sum.case)
    have clip: "clipboard ?q = clipboard pg"
      using facts(4) by (simp add: console_error_def)
    have cons: "console ?q = console pg @ [str ''Fallback: Oops, unable to copy'']"
      using facts(5) by (simp add: console_error_def)
    from ready [OF q, of "str ''Failed to copy URL''" "Some (str ''error'')"]
      shown [OF q(1), of "str ''Failed to copy URL''" "Some (str ''error'')"]
    show ?thesis
      by (simp add: run ExecThrows clip cons)
  qed
qed




lemma wf_page_console_error: "wf_page (console_error msg pg) = wf_page pg"
  by (simp add: wf_page_def console_error_def split: option.splits)

text \<open>
  The paths of \<open>copyToClipboard\<close> that end as documented: without the clipboard interface
  or a secure context, and after a rejected \<open>writeText\<close>, the fallback runs; a copy
  command that returns \<open>true\<close> puts the text on the clipboard and shows the success
  alert, one that throws shows the failure alert.
\<close>

lemma copyToClipboard_legacy:
  assumes "wf_page pg" and "\<not> (has_clipboard env \<and> isSecureContext env \<and> writeText_fulfilled env)"
  shows "execCommand_copy env = ExecReturns True \<Longrightarrow>
           \<exists>pg'. copyToClipboard env text pg = Inr pg' \<and> clipboard pg' = text \<and>
             class_of pg' (Suc (length (heap pg))) =
               str ''alert alert-success alert-dismissible fade show''"
    and "execCommand_copy env = ExecThrows \<Longrightarrow>
           \<exists>pg'. copyToClipboard env text pg = Inr pg' \<and> clipboard pg' = clipboard pg \<and>
             class_of pg' (Suc (length (heap pg))) =
               str ''alert alert-danger alert-dismissible fade show''"
proof -
  let ?start = "if has_clipboard env \<and> isSecureContext env
                then console_error (str ''Failed to copy: '') pg else pg"
  have route: "copyToClipboard env text pg = fallbackCopyTextToClipboard env text ?start"
    using assms(2) by (simp add: copyToClipboard_def)
  have wf: "wf_page ?start"
    using assms(1) by (simp add: wf_page_console_error)
  have same: "length (heap ?start) = length (heap pg)" "clipboard ?start = clipboard pg"
    by (simp_all add: console_error_def)
  from fallbackCopy_result [OF wf] obtain pg' where
    "fallbackCopyTextToClipboard env text ?start = Inr pg'"
    "class_of pg' (Suc (length (heap ?start))) =
       (if execCommand_copy env = ExecThrows
        then str ''alert alert-danger alert-dismissible fade show''
        else str ''alert alert-success alert-dismissible fade show'')"
    "clipboard pg' = (if execCommand_copy env = ExecReturns True then text else clipboard ?start)"
    by blast
  then have both: "copyToClipboard env text pg = Inr pg' \<and>
      class_of pg' (Suc (length (heap pg))) =
       (if execCommand_copy env = ExecThrows
        then str ''alert alert-danger alert-dismissible fade show''
        else str ''alert alert-success alert-dismissible fade show'') \<and>
      clipboard pg' = (if execCommand_copy env = ExecReturns True then text else clipboard pg)"
    by (simp only: route same simp_thms)
  show "execCommand_copy env = ExecReturns True \<Longrightarrow>
           \<exists>pg'. copyToClipboard env text pg = Inr pg' \<and> clipboard pg' = text \<and>
             class_of pg' (Suc (length (heap pg))) =
               str ''alert alert-success alert-dismissible fade show''"
    using both by auto
  show "execCommand_copy env = ExecThrows \<Longrightarrow>
           \<exists>pg'. copyToClipboard env text pg = Inr pg' \<and> clipboard pg' = clipboard pg \<and>
             class_of pg' (Suc (length (heap pg))) =
               str ''alert alert-danger alert-dismissible fade show''"
    using both by auto
qed


text \<open>
  Claim C6. A failed legacy copy is meant to be reported as a failure. The script drops
  the value \<open>document.execCommand('copy')\<close> returns, so when the command returns
  \<open>false\<close> on a platform without the clipboard interface, nothing reaches the clipboard
  and the alert shown is the success one.
\<close>

theorem copyToClipboard_failed_copy_reports_success:
  "\<exists>pg'. copyToClipboard
           \<lparr>has_clipboard = False, isSecureContext = False, writeText_fulfilled = False,
            execCommand_copy = ExecReturns False\<rparr> (str ''https://youtu.be/dQw4w9WgXcQ'')
           example_page = Inr pg' \<and>
     clipboard pg' = [] \<and>
     class_of pg' 12 = str ''alert alert-success alert-dismissible fade show'' \<and>
     markup_of pg' 12 = alert_markup (str ''success'') (str ''URL copied to clipboard!'')"
proof -
  let ?env = "\<lparr>has_clipboard = False, isSecureContext = False, writeText_fulfilled = False,
               execCommand_copy = ExecReturns False\<rparr>"
  let ?url = "str ''https://youtu.be/dQw4w9WgXcQ''"
  have empty: "clipboard example_page = []"
    by (simp add: example_page_def)
  have route: "copyToClipboard ?env ?url example_page =
                 fallbackCopyTextToClipboard ?env ?url example_page"
    by (simp add: copyToClipboard_def)
  from fallbackCopy_result [OF wf_example] obtain pg' where
    "fallbackCopyTextToClipboard ?env ?url example_page = Inr pg'"
    "class_of pg' (Suc (length (heap example_page))) =
       (if execCommand_copy ?env = ExecThrows
        then str ''alert alert-danger alert-dismissible fade show''
        else str ''alert alert-success alert-dismissible fade show'')"
    "markup_of pg' (Suc (length (heap example_page))) =
       (if execCommand_copy ?env = ExecThrows
        then alert_markup (str ''error'') (str ''Failed to copy URL'')
        else alert_markup (str ''success'') (str ''URL copied to clipboard!''))"
    "clipboard pg' =
       (if execCommand_copy ?env = ExecReturns True then ?url else clipboard example_page)"
    by blast
  then have "copyToClipboard ?env ?url example_page = Inr pg' \<and>
     clipboard pg' = [] \<and>
     class_of pg' 12 = str ''alert alert-success alert-dismissible fade show'' \<and>
     markup_of pg' 12 = alert_markup (str ''success'') (str ''URL copied to clipboard!'')"
    by (simp add: route empty example_page_facts)
  then show ?thesis by blast
qed




section \<open>Life of an alert\<close>

lemma auto_dismiss_fields:
  "clock (auto_dismiss pg a) = clock pg"
  "qs_btn_close (auto_dismiss pg a) = qs_btn_close pg"
  "timers (auto_dismiss pg a) =
     timers pg @ (if qs_btn_close pg a = None then [(clock pg + 5000, FadeOut a)] else [])"
  by (simp_all add: auto_dismiss_def setTimeout_def)

lemma auto_dismiss_pass:
  "timers (foldl auto_dismiss pg alerts) =
     timers pg @ map (\<lambda>a. (clock pg + 5000, FadeOut a))
                   (filter (\<lambda>a. qs_btn_close pg a = None) alerts) \<and>
   clock (foldl auto_dismiss pg alerts) = clock pg \<and>
   qs_btn_close (foldl auto_dismiss pg alerts) = qs_btn_close pg"
proof (induction alerts arbitrary: pg)
  case Nil
  show ?case by simp
next
  case (Cons a alerts)
  show ?case
    using Cons.IH [of "auto_dismiss pg a"] by (simp add: auto_dismiss_fields)
qed

lemma on_load_timers:
  "timers (on_load pg) =
     timers pg @ map (\<lambda>a. (clock pg + 5000, FadeOut a))
                   (filter (\<lambda>a. qs_btn_close pg a = None) (qsa_alert pg))"
proof -
  let ?pg1 = "case (qs_analyze_form pg, element_ids pg (str ''url'')) of
                (Some f, Some u) \<Rightarrow> addEventListener f (AnalyzeSubmit u) pg
              | _ \<Rightarrow> pg"
  let ?pg2 = "case qs_download_form ?pg1 of
                Some d \<Rightarrow> addEventListener d DownloadSubmit ?pg1
              | None \<Rightarrow> ?pg1"
  have one: "timers ?pg1 = timers pg" "clock ?pg1 = clock pg" "qs_btn_close ?pg1 = qs_btn_close pg"
    "qsa_alert ?pg1 = qsa_alert pg"
    by (simp_all add: addEventListener_def split: option.splits)
  have two: "timers ?pg2 = timers pg" "clock ?pg2 = clock pg" "qs_btn_close ?pg2 = qs_btn_close pg"
    "qsa_alert ?pg2 = qsa_alert pg"
    using one by (simp_all add: addEventListener_def split: option.splits)
  have "on_load pg = foldl auto_dismiss ?pg2 (qsa_alert ?pg2)"
    unfolding on_load_def Let_def by (rule refl)
  then show ?thesis
    using auto_dismiss_pass [of ?pg2 "qsa_alert ?pg2"] by (simp only: two)
qed

lemma fade_out_effect:
  assumes "n < length (heap q)"
  shows "style_of (run_callback (FadeOut n) q) n StyleOpacity = Some (Text (str ''0''))"
    and "timers (run_callback (FadeOut n) q) = timers q @ [(clock q + 300, Remove n)]"
  using assms by (simp_all add: setTimeout_observe set_style_observe setter_fields)

lemma fade_out_structure:
  "children (run_callback (FadeOut n) q) m = children q m"
  "parent_of (run_callback (FadeOut n) q) m = parent_of q m"
  by (simp_all add: setTimeout_observe set_style_observe)

lemma remove_effect: "parent_of (run_callback (Remove n) q) n = None"
  by (simp add: remove_def detach_parent)

lemma alert_markup_has_button:
  \<open>\<exists>before after. alert_markup ty message =
     before @ str ''<button type="button" class="btn-close" data-bs-dismiss="alert"></button>'' @ after\<close>
proof -
  have \<open>alert_markup ty message =
          ([10] @ str ''        <i class="fas fa-''
             @ (if ty = str ''error'' then str ''exclamation-triangle'' else str ''check-circle'')
             @ str '' me-2"></i>'' @ [10] @ str ''        '' @ message @ [10] @ str ''        '')
          @ str ''<button type="button" class="btn-close" data-bs-dismiss="alert"></button>''
          @ ([10] @ str ''    '')\<close>
    by (simp add: alert_markup_def str_def)
  then show ?thesis by blast
qed

lemma banner_round_trip:
  assumes "wf_page pg" and "qs_container pg = Some c"
  shows "children (run_callback (Remove (length (heap pg)))
                    (run_callback (FadeOut (length (heap pg))) (showAlert message type_arg pg))) c =
           children pg c"
proof -
  let ?b = "length (heap pg)"
  let ?s = "showAlert message type_arg pg"
  let ?f = "run_callback (FadeOut ?b) ?s"
  have c: "c < ?b" using assms by (rule wf_page_container)
  then have cond: "case qs_container pg of None \<Rightarrow> True | Some c \<Rightarrow> c < length (heap pg)"
    using assms(2) by simp
  have kids: "children ?f c = ?b # children pg c"
    using assms(2) c by (simp add: fade_out_structure showAlert_children del: run_callback.simps)
  have parent: "parent_of ?f ?b = Some c"
    using assms(2)
    by (simp add: fade_out_structure showAlert_parent [OF cond] del: run_callback.simps)
  have ne: "?b \<noteq> c" using c by simp
  have "run_callback (Remove ?b) ?f = detach ?b ?f"
    by (simp only: run_callback.simps remove_def)
  then show ?thesis
    using detach_children [OF parent ne, of c] kids by (simp del: run_callback.simps)
qed

text \<open>
  Claim C5. \<open>showAlert\<close> schedules the fade of its banner for 5000 ms after the call,
  although the markup of the banner holds a dismiss button. Whatever the page has become
  when that timer runs, the banner's opacity is set to \<open>0\<close> and its removal is
  scheduled for 300 ms later; when that timer runs the banner has no parent any more, and
  with nothing else touching it the container's children are the ones from before the
  alert. The pass at page load schedules the same fade for exactly those \<open>.alert\<close> nodes
  in which no \<open>.btn-close\<close> is found.
\<close>

theorem alert_lifecycle:
  \<open>timers (showAlert message type_arg pg) =
     timers pg @ [(clock pg + 5000, FadeOut (length (heap pg)))] \<and>
   (\<exists>before after. markup_of (showAlert message type_arg pg) (length (heap pg)) =
      before @ str ''<button type="button" class="btn-close" data-bs-dismiss="alert"></button>''
        @ after) \<and>
   (\<forall>q. n < length (heap q) \<longrightarrow>
      style_of (run_callback (FadeOut n) q) n StyleOpacity = Some (Text (str ''0'')) \<and>
      timers (run_callback (FadeOut n) q) = timers q @ [(clock q + 300, Remove n)]) \<and>
   (\<forall>q. parent_of (run_callback (Remove n) q) n = None) \<and>
   (\<forall>c. wf_page pg \<and> qs_container pg = Some c \<longrightarrow>
      children (run_callback (Remove (length (heap pg)))
                 (run_callback (FadeOut (length (heap pg))) (showAlert message type_arg pg))) c =
        children pg c) \<and>
   timers (on_load pg) =
     timers pg @ map (\<lambda>a. (clock pg + 5000, FadeOut a))
                   (filter (\<lambda>a. qs_btn_close pg a = None) (qsa_alert pg))\<close>
  using alert_markup_has_button
  by (simp add: showAlert_timers showAlert_markup fade_out_effect remove_effect
        banner_round_trip on_load_timers del: run_callback.simps)

theorem alert_lifecycle_witness:
  "fire_timer 0 ((showAlert (str ''Please enter a YouTube URL'') (Some (str ''error''))
                    example_page)\<lparr>clock := 4999\<rparr>) = None \<and>
   (\<exists>faded. fire_timer 0 ((showAlert (str ''Please enter a YouTube URL'') (Some (str ''error''))
                             example_page)\<lparr>clock := 5000\<rparr>) = Some faded \<and>
      style_of faded 11 StyleOpacity = Some (Text (str ''0'')) \<and>
      timers faded = [(5300, Remove 11)]) \<and>
   children (run_callback (Remove 11)
               (run_callback (FadeOut 11)
                  (showAlert (str ''Please enter a YouTube URL'') (Some (str ''error''))
                     example_page))) 2 = [3, 4, 5, 6, 9] \<and>
   timers (on_load example_page) = [(5000, FadeOut 5)]"
proof -
  let ?s = "showAlert (str ''Please enter a YouTube URL'') (Some (str ''error'')) example_page"
  let ?q = "?s\<lparr>clock := 5000, timers := []\<rparr>"
  note life = alert_lifecycle [of "str ''Please enter a YouTube URL''" "Some (str ''error'')"
                example_page 11]
  have scheduled: "timers ?s = [(5000, FadeOut 11)]"
    using life by (simp add: example_page_facts)
  have early: "fire_timer 0 (?s\<lparr>clock := 4999\<rparr>) = None"
    by (simp add: fire_timer_def scheduled)
  have fire: "fire_timer 0 (?s\<lparr>clock := 5000\<rparr>) = Some (run_callback (FadeOut 11) ?q)"
    by (simp add: fire_timer_def scheduled del: run_callback.simps)
  have "11 < length (heap ?q)"
    by (simp add: showAlert_length example_page_facts)
  with life have "style_of (run_callback (FadeOut 11) ?q) 11 StyleOpacity = Some (Text (str ''0'')) \<and>
                  timers (run_callback (FadeOut 11) ?q) = timers ?q @ [(clock ?q + 300, Remove 11)]"
    by blast
  then have faded: "style_of (run_callback (FadeOut 11) ?q) 11 StyleOpacity = Some (Text (str ''0''))"
    "timers (run_callback (FadeOut 11) ?q) = [(5300, Remove 11)]"
    by simp_all
  have gone: "children (run_callback (Remove 11) (run_callback (FadeOut 11) ?s)) 2 = [3, 4, 5, 6, 9]"
    using life wf_example by (simp add: example_page_facts del: run_callback.simps)
  have load: "timers (on_load example_page) = [(5000, FadeOut 5)]"
    using life by (simp add: example_page_def)
  from early fire faded gone load show ?thesis
    by (simp del: run_callback.simps)
qed


section \<open>Progress animator\<close>

lemma animate_positive:
  assumes "0 < anim_duration a"
  shows "animate a t pg =
           (if t - startTime a < anim_duration a
            then requestAnimationFrame a
                   (set_style (anim_element a) StyleWidth
                      (Percent (Finite (targetWidth a * min ((t - startTime a) / anim_duration a) 1))) pg)
            else set_style (anim_element a) StyleWidth (Percent (Finite (targetWidth a))) pg)"
proof -
  let ?e = "t - startTime a"
  let ?d = "anim_duration a"
  have div: "num_div ?e ?d = Finite (?e / ?d)"
    using assms by (simp add: num_div_def)
  have less: "?e / ?d < 1 \<longleftrightarrow> ?e < ?d"
    using assms by (simp add: divide_less_eq)
  have full: "\<not> ?e < ?d \<Longrightarrow> min (?e / ?d) 1 = 1"
    using less by (simp add: min_def)
  show ?thesis
    using less full by (simp add: animate_def Let_def div min_less_iff_disj)
qed

lemma requestAnimationFrame_fields:
  "frame_requests (requestAnimationFrame a pg) = frame_requests pg @ [a]"
  "style_of (requestAnimationFrame a pg) n p = style_of pg n p"
  "heap (requestAnimationFrame a pg) = heap pg"
  by (simp_all add: requestAnimationFrame_def style_of_def)

lemma set_style_frame_requests: "frame_requests (set_style n p v pg) = frame_requests pg"
  by (simp add: set_style_def update_element_def)

lemma animate_frame_requests:
  assumes "0 < anim_duration a"
  shows "frame_requests (animate a t pg) =
           (if t - startTime a < anim_duration a then frame_requests pg @ [a]
            else frame_requests pg)"
  by (simp add: animate_positive [OF assms] requestAnimationFrame_fields set_style_frame_requests)

lemma deliver_frame_empty:
  "frame_requests pg = [] \<Longrightarrow> frame_requests (deliver_frame t pg) = []"
  by (simp add: deliver_frame_def)

lemma deliver_frame_single:
  assumes "0 < anim_duration a" and "frame_requests pg = [a]"
  shows "frame_requests (deliver_frame t pg) =
           (if t - startTime a < anim_duration a then [a] else [])"
  using assms by (simp add: deliver_frame_def animate_frame_requests)

lemma frames_terminate:
  assumes "0 < anim_duration a"
    and "frame_requests pg = [a] \<or> frame_requests pg = []"
    and "\<exists>t\<in>set ts. anim_duration a \<le> t - startTime a"
  shows "frame_requests (foldl (\<lambda>p t. deliver_frame t p) pg ts) = []"
  using assms(2,3)
proof (induction ts arbitrary: pg)
  case Nil
  then show ?case by simp
next
  case (Cons t ts)
  have step: "frame_requests (deliver_frame t pg) = [a] \<or> frame_requests (deliver_frame t pg) = []"
    using Cons.prems(1) deliver_frame_single [OF assms(1), of pg t] deliver_frame_empty [of pg t]
    by (auto split: if_splits)
  show ?case
  proof (cases "anim_duration a \<le> t - startTime a")
    case True
    then have finished: "frame_requests (deliver_frame t pg) = []"
      using Cons.prems(1) deliver_frame_single [OF assms(1), of pg t] deliver_frame_empty [of pg t]
      by (auto split: if_splits)
    have "\<And>q. frame_requests q = [] \<Longrightarrow>
            frame_requests (foldl (\<lambda>p t. deliver_frame t p) q ts) = []"
    proof (induction ts)
      case Nil
      then show ?case by simp
    next
      case (Cons u us)
      then show ?case by (simp add: deliver_frame_empty)
    qed
    then show ?thesis using finished by simp
  next
    case False
    then have "\<exists>t\<in>set ts. anim_duration a \<le> t - startTime a"
      using Cons.prems(2) by auto
    then show ?thesis using Cons.IH [OF step] by simp
  qed
qed

lemma animateProgressBar_found:
  "element_ids pg elementId = Some el \<Longrightarrow>
   animateProgressBar elementId target duration_arg pg =
     requestAnimationFrame
       \<lparr>anim_element = el, startTime = clock pg, targetWidth = target,
        anim_duration = (case duration_arg of None \<Rightarrow> 1000 | Some d \<Rightarrow> d)\<rparr> pg"
  by (simp add: animateProgressBar_def)

lemma animateProgressBar_missing:
  "element_ids pg elementId = None \<Longrightarrow> animateProgressBar elementId target duration_arg pg = pg"
  by (simp add: animateProgressBar_def)

text \<open>
  Claim C8, for a positive duration. On each frame \<open>animate\<close> writes the width
  \<open>targetWidth * min(elapsed / duration, 1)\<close> percent, whatever width the element had, and
  asks for another frame exactly when \<open>elapsed < duration\<close>. Once \<open>elapsed\<close> has reached
  the duration the width written is the target itself and no frame is requested, so a
  run of frames that gets that far leaves no request behind. \<open>animateProgressBar\<close> starts
  this for the element with the given id, from the current time, with 1000 ms when no
  duration is given, and does nothing when there is no such element.
\<close>

theorem animate_interpolates:
  assumes "0 < anim_duration a"
  shows "animate a t pg =
           (if t - startTime a < anim_duration a
            then requestAnimationFrame a
                   (set_style (anim_element a) StyleWidth
                      (Percent (Finite (targetWidth a * min ((t - startTime a) / anim_duration a) 1))) pg)
            else set_style (anim_element a) StyleWidth (Percent (Finite (targetWidth a))) pg) \<and>
         (frame_requests pg = [a] \<and> (\<exists>t\<in>set ts. anim_duration a \<le> t - startTime a) \<longrightarrow>
            frame_requests (foldl (\<lambda>p t. deliver_frame t p) pg ts) = []) \<and>
         (\<forall>el. element_ids pg elementId = Some el \<and>
               a = \<lparr>anim_element = el, startTime = clock pg, targetWidth = target,
                    anim_duration = (case duration_arg of None \<Rightarrow> 1000 | Some d \<Rightarrow> d)\<rparr> \<longrightarrow>
               animateProgressBar elementId target duration_arg pg = requestAnimationFrame a pg) \<and>
         (element_ids pg elementId = None \<longrightarrow>
            animateProgressBar elementId target duration_arg pg = pg)"
  using animate_positive [OF assms] frames_terminate [OF assms, of pg ts]
  by (auto simp: animateProgressBar_found animateProgressBar_missing)

text \<open>
  As worded the claim covers every duration. With the duration \<open>-1000\<close> a frame 16 ms
  after the start has \<open>elapsed \<ge> duration\<close>, yet the width written is \<open>-1.6\<close> percent, not
  the target of 100, and another frame is requested.
\<close>

theorem animate_negative_duration_counterexample:
  "(- 1000 :: rat) \<le> 16 - clock example_page \<and>
   style_of (deliver_frame 16 (animateProgressBar (str ''progress'') 100 (Some (- 1000)) example_page))
     9 StyleWidth = Some (Percent (Finite (- 8 / 5))) \<and>
   frame_requests (deliver_frame 16
     (animateProgressBar (str ''progress'') 100 (Some (- 1000)) example_page)) =
     [\<lparr>anim_element = 9, startTime = 0, targetWidth = 100, anim_duration = - 1000\<rparr>]"
proof -
  let ?a = "\<lparr>anim_element = 9, startTime = 0, targetWidth = 100, anim_duration = - 1000\<rparr>"
  have start: "animateProgressBar (str ''progress'') 100 (Some (- 1000)) example_page =
                 requestAnimationFrame ?a example_page"
    by (simp add: animateProgressBar_def example_page_def str_def)
  have frame: "deliver_frame 16 (requestAnimationFrame ?a example_page) =
                 animate ?a 16 (example_page\<lparr>frame_requests := [], clock := 16\<rparr>)"
    by (simp add: deliver_frame_def requestAnimationFrame_def example_page_def)
  have run: "animate ?a 16 (example_page\<lparr>frame_requests := [], clock := 16\<rparr>) =
               requestAnimationFrame ?a
                 (set_style 9 StyleWidth (Percent (Finite (- 8 / 5)))
                    (example_page\<lparr>frame_requests := [], clock := 16\<rparr>))"
    by (simp add: animate_def num_div_def Let_def)
  have len: "9 < length (heap (example_page\<lparr>frame_requests := [], clock := 16\<rparr>))"
    by (simp add: example_page_facts)
  show ?thesis
    using len
    by (simp add: start frame run requestAnimationFrame_fields set_style_observe
          set_style_frame_requests example_page_facts)
qed

theorem animate_interpolates_witness:
  "style_of (deliver_frame 500 (animateProgressBar (str ''progress'') 75 None example_page))
     9 StyleWidth = Some (Percent (Finite (75 / 2))) \<and>
   frame_requests (deliver_frame 500 (animateProgressBar (str ''progress'') 75 None example_page)) =
     [\<lparr>anim_element = 9, startTime = 0, targetWidth = 75, anim_duration = 1000\<rparr>] \<and>
   style_of (deliver_frame 1000
               (deliver_frame 500 (animateProgressBar (str ''progress'') 75 None example_page)))
     9 StyleWidth = Some (Percent (Finite 75)) \<and>
   frame_requests (deliver_frame 1000
     (deliver_frame 500 (animateProgressBar (str ''progress'') 75 None example_page))) = []"
proof -
  let ?a = "\<lparr>anim_element = 9, startTime = 0, targetWidth = 75, anim_duration = 1000\<rparr>"
  let ?p0 = "example_page\<lparr>frame_requests := [], clock := 500\<rparr>"
  let ?w1 = "set_style 9 StyleWidth (Percent (Finite (75 / 2))) ?p0"
  let ?p1 = "?w1\<lparr>frame_requests := [], clock := 1000\<rparr>"
  have pos: "0 < anim_duration ?a" by simp
  have ids: "element_ids example_page (str ''progress'') = Some 9"
    by (simp add: example_page_def str_def)
  have clock: "clock example_page = 0" "frame_requests example_page = []"
    by (simp_all add: example_page_def)
  have start: "animateProgressBar (str ''progress'') 75 None example_page =
                 requestAnimationFrame ?a example_page"
    using animate_interpolates [OF pos, of 0 example_page "[]" "str ''progress''" 75 None] ids clock
    by simp
  have first: "deliver_frame 500 (requestAnimationFrame ?a example_page) = animate ?a 500 ?p0"
    by (simp add: deliver_frame_def requestAnimationFrame_def clock)
  have half: "animate ?a 500 ?p0 = requestAnimationFrame ?a ?w1"
    using animate_interpolates [OF pos, of 500 ?p0 "[]" "str ''progress''" 75 None]
    by simp
  have queue: "frame_requests (requestAnimationFrame ?a ?w1) = [?a]"
    by (simp add: requestAnimationFrame_fields set_style_frame_requests)
  have second: "deliver_frame 1000 (requestAnimationFrame ?a ?w1) = animate ?a 1000 ?p1"
    by (simp add: deliver_frame_def queue) (simp add: requestAnimationFrame_def)
  have full: "animate ?a 1000 ?p1 = set_style 9 StyleWidth (Percent (Finite 75)) ?p1"
    using animate_interpolates [OF pos, of 1000 ?p1 "[]" "str ''progress''" 75 None]
    by simp
  have len: "9 < length (heap ?p0)" "9 < length (heap ?p1)"
    by (simp_all add: example_page_facts set_style_observe)
  show ?thesis
    using len
    by (simp add: start first half second full requestAnimationFrame_fields set_style_observe
          set_style_frame_requests)
qed


end
